theory Spec2Isabelle
  imports Main "HOL-Library.Word" "HOL-Library.AList"
begin

unbundle bit_operations_syntax

section \<open>Common data\<close>

text \<open>
  Python \<open>bytes\<close> are lists of 8-bit words, Python integers are \<open>int\<close>, and every
  exception the modelled code can raise is a value of \<open>pyexn\<close>; a function that may raise
  returns \<open>pyexn + 'a\<close> with \<open>Inl\<close> for the exception. \<open>NotModelled\<close> is not an
  exception of Python: it marks an input outside the fragment that an instance of a library
  function models.
\<close>

type_synonym byte = "8 word"

datatype pyexn =
    StructError
  | ZlibError
  | UnicodeDecodeError
  | SteamError
  | UnboundLocalError
  | KeyboardInterrupt
  | ValueError
  | NotModelled

section \<open>Container decoder: \<open>get_data_local\<close> in \<open>reboot_downloader.py\<close>\<close>

subsection \<open>The 12-byte header\<close>

text \<open>
  \<open>struct.unpack('III', header)\<close> reads three unsigned 32-bit integers; the byte order is
  the machine's, little-endian on the platforms the tool is built for. It raises
  \<open>struct.error\<close> unless the buffer holds exactly 12 bytes.
\<close>

definition unpack_I :: "byte list \<Rightarrow> int" where
  "unpack_I bs = foldr (\<lambda>b acc. uint b + 256 * acc) bs 0"

definition unpack_III :: "byte list \<Rightarrow> pyexn + (int \<times> int \<times> int)" where
  "unpack_III header =
     (if length header \<noteq> 12 then Inl StructError
      else Inr (unpack_I (take 4 header),
                unpack_I (take 4 (drop 4 header)),
                unpack_I (take 4 (drop 8 header))))"

text \<open>
  Lines 217--220: \<open>header = content[:12]\<close>, the unpacking, then
  \<open>xorkey ^= 0xFFFEA4C8\<close> and \<open>xorkey &= 0xFF\<close>.
\<close>

definition st_header :: "byte list \<Rightarrow> pyexn + (int \<times> int \<times> int)" where
  "st_header content =
     (case unpack_III (take 12 content) of
        Inl e \<Rightarrow> Inl e
      | Inr (xorkey0, sz, xorkeyverify) \<Rightarrow>
          (let xorkey1 = xorkey0 XOR 0xFFFEA4C8;
               xorkey2 = xorkey1 AND 0xFF
           in Inr (xorkey2, sz, xorkeyverify)))"

text \<open>
  The writer's side of the header, \<open>struct.pack('<I', x)\<close>: the four bytes of \<open>x\<close>,
  least significant first. It is defined for \<open>0 \<le> x < 2^32\<close>.
\<close>

definition pack_I :: "int \<Rightarrow> byte list" where
  "pack_I x = [word_of_int x, word_of_int (x div 256),
               word_of_int (x div 65536), word_of_int (x div 16777216)]"

definition pack_III :: "int \<Rightarrow> int \<Rightarrow> int \<Rightarrow> byte list" where
  "pack_III a b c = pack_I a @ pack_I b @ pack_I c"

definition is_u32 :: "int \<Rightarrow> bool" where
  "is_u32 x = (0 \<le> x \<and> x < 4294967296)"

subsection \<open>The directive grammar (Format A)\<close>

text \<open>
  The text is a Python \<open>str\<close>; it is modelled as a \<open>string\<close>, whose characters are
  the code points below 256. On that range the regular expression classes are: \<open>\d\<close> the
  ten ASCII digits, \<open>\s\<close> the characters for which \<open>str.isspace\<close> holds, and
  \<open>[0-9a-f]\<close> as written.
\<close>

definition is_digit :: "char \<Rightarrow> bool" where
  "is_digit c = (48 \<le> (of_char c :: nat) \<and> (of_char c :: nat) \<le> 57)"

definition is_space :: "char \<Rightarrow> bool" where
  "is_space c = ((of_char c :: nat) \<in> set [9, 10, 11, 12, 13, 28, 29, 30, 31, 32, 133, 160])"

definition is_hexlower :: "char \<Rightarrow> bool" where
  "is_hexlower c = (is_digit c \<or> (97 \<le> (of_char c :: nat) \<and> (of_char c :: nat) \<le> 102))"

text \<open>
  Matching at one position returns the text after the match. \<open>lit\<close> is a literal,
  \<open>dropWhile p\<close> a greedy \<open>p*\<close>, \<open>many1 p\<close> a greedy capturing \<open>p+\<close>. In both
  patterns every repetition is followed by a character outside its class, so the greedy
  choice is the only one the backtracking matcher of \<open>re\<close> can complete.
\<close>

definition lit :: "string \<Rightarrow> string \<Rightarrow> string option" where
  "lit p s = (if take (length p) s = p then Some (drop (length p) s) else None)"

definition many1 :: "(char \<Rightarrow> bool) \<Rightarrow> string \<Rightarrow> (string \<times> string) option" where
  "many1 p s = (if takeWhile p s = [] then None else Some (takeWhile p s, dropWhile p s))"

text \<open>The optional group \<open>(?:,\s*\d+\s*,\s*"([0-9a-f]+)"\s*)\<close> of \<open>addappid_pattern\<close>.\<close>

definition addappid_key_group :: "string \<Rightarrow> (string \<times> string) option" where
  "addappid_key_group s =
     (case lit '','' s of None \<Rightarrow> None | Some s1 \<Rightarrow>
      case many1 is_digit (dropWhile is_space s1) of None \<Rightarrow> None | Some (flags, s2) \<Rightarrow>
      case lit '','' (dropWhile is_space s2) of None \<Rightarrow> None | Some s3 \<Rightarrow>
      case lit [CHR 0x22] (dropWhile is_space s3) of None \<Rightarrow> None | Some s4 \<Rightarrow>
      case many1 is_hexlower s4 of None \<Rightarrow> None | Some (key, s5) \<Rightarrow>
      case lit [CHR 0x22] s5 of None \<Rightarrow> None | Some s6 \<Rightarrow>
      Some (key, dropWhile is_space s6))"

text \<open>
  \<open>addappid\(\s*(\d+)\s*(?:,\s*\d+\s*,\s*"([0-9a-f]+)"\s*)?\)\<close> at the head of \<open>s\<close>:
  groups 1 and 2 and the text after the match. The optional group is tried first, then
  skipped, as the greedy \<open>?\<close> does.
\<close>

definition addappid_match :: "string \<Rightarrow> ((string \<times> string option) \<times> string) option" where
  "addappid_match s =
     (case lit ''addappid('' s of None \<Rightarrow> None | Some s1 \<Rightarrow>
      case many1 is_digit (dropWhile is_space s1) of None \<Rightarrow> None | Some (depot_id, s2) \<Rightarrow>
      (let s3 = dropWhile is_space s2;
           with_key = (case addappid_key_group s3 of None \<Rightarrow> None | Some (key, s4) \<Rightarrow>
                         (case lit '')'' s4 of None \<Rightarrow> None
                          | Some s5 \<Rightarrow> Some ((depot_id, Some key), s5)))
       in case with_key of
            Some r \<Rightarrow> Some r
          | None \<Rightarrow> (case lit '')'' s3 of None \<Rightarrow> None
                     | Some s5 \<Rightarrow> Some ((depot_id, None), s5))))"

text \<open>\<open>setManifestid\(\s*(\d+)\s*,\s*"(\d+)"\s*(?:,\s*\d+\s*)?\)\<close> at the head of \<open>s\<close>.\<close>

definition setmanifestid_match :: "string \<Rightarrow> ((string \<times> string) \<times> string) option" where
  "setmanifestid_match s =
     (case lit ''setManifestid('' s of None \<Rightarrow> None | Some s1 \<Rightarrow>
      case many1 is_digit (dropWhile is_space s1) of None \<Rightarrow> None | Some (depot_id, s2) \<Rightarrow>
      case lit '','' (dropWhile is_space s2) of None \<Rightarrow> None | Some s3 \<Rightarrow>
      case lit [CHR 0x22] (dropWhile is_space s3) of None \<Rightarrow> None | Some s4 \<Rightarrow>
      case many1 is_digit s4 of None \<Rightarrow> None | Some (manifest_id, s5) \<Rightarrow>
      case lit [CHR 0x22] s5 of None \<Rightarrow> None | Some s6 \<Rightarrow>
      (let s7 = dropWhile is_space s6;
           with_flags = (case lit '','' s7 of None \<Rightarrow> None | Some s8 \<Rightarrow>
                           (case many1 is_digit (dropWhile is_space s8) of None \<Rightarrow> None
                            | Some (flags, s9) \<Rightarrow> lit '')'' (dropWhile is_space s9)))
       in case with_flags of
            Some r \<Rightarrow> Some ((depot_id, manifest_id), r)
          | None \<Rightarrow> (case lit '')'' s7 of None \<Rightarrow> None
                     | Some r \<Rightarrow> Some ((depot_id, manifest_id), r))))"

text \<open>
  \<open>pattern.finditer(content)\<close>: the matches from left to right, without overlap. The
  scan tries each position in turn; after a match it resumes where the match ended, which
  the counter \<open>skip\<close> (characters of the last match still to pass) expresses by recursion
  on the text.
\<close>

fun finditer :: "(string \<Rightarrow> ('g \<times> string) option) \<Rightarrow> nat \<Rightarrow> string \<Rightarrow> 'g list" where
  "finditer m skip [] = []"
| "finditer m skip (c # cs) =
     (if 0 < skip then finditer m (skip - 1) cs
      else (case m (c # cs) of
              None \<Rightarrow> finditer m 0 cs
            | Some (g, rest) \<Rightarrow> g # finditer m (length cs - length rest) cs))"

subsection \<open>Collecting keys and manifests\<close>

text \<open>
  \<open>depot_keys\<close> is a Python \<open>dict\<close> from the depot id (the text of group 1) to the key:
  an association list in insertion order, where assigning to a present key replaces its
  value in place (\<open>AList.update\<close>).

  Lines 236--240: a match sets \<open>depot_keys[depot_id]\<close> only when its group 2 is truthy.
\<close>

type_synonym depot_keys = "(string \<times> string) list"

fun addappid_loop :: "(string \<times> string option) list \<Rightarrow> depot_keys \<Rightarrow> depot_keys" where
  "addappid_loop [] depot_keys = depot_keys"
| "addappid_loop ((depot_id, group2) # ms) depot_keys =
     (let decrypt_key = (case group2 of None \<Rightarrow> None
                         | Some k \<Rightarrow> if k \<noteq> [] then Some k else None)
      in case decrypt_key of
           None \<Rightarrow> addappid_loop ms depot_keys
         | Some k \<Rightarrow> addappid_loop ms (AList.update depot_id k depot_keys))"

text \<open>
  Lines 247--267: for each \<open>setManifestid\<close> match the file
  \<open>{depot_id}_{manifest_id}.manifest\<close> is looked for in the three directories, and if one
  of them has it, its path under the working directory is collected. \<open>found\<close> says
  whether a file name exists in one of the three directories.
\<close>

definition manifest_filename :: "string \<times> string \<Rightarrow> string" where
  "manifest_filename m = fst m @ ''_'' @ snd m @ ''.manifest''"

definition setmanifestid_loop :: "(string \<Rightarrow> bool) \<Rightarrow> string \<Rightarrow> (string \<times> string) list \<Rightarrow> string list" where
  "setmanifestid_loop found work_dir ms =
     map (\<lambda>m. work_dir @ ''/'' @ manifest_filename m) (filter (\<lambda>m. found (manifest_filename m)) ms)"

definition parse_content :: "(string \<Rightarrow> bool) \<Rightarrow> string \<Rightarrow> string \<Rightarrow> depot_keys \<times> string list" where
  "parse_content found work_dir content =
     (addappid_loop (finditer addappid_match 0 content) [],
      setmanifestid_loop found work_dir (finditer setmanifestid_match 0 content))"

subsection \<open>The obfuscated container (Format B)\<close>

text \<open>
  Lines 213--227. \<open>decompress\<close> stands for \<open>zlib.decompress\<close> and \<open>decode\<close> for
  \<open>bytes.decode('utf-8')\<close>; either may raise. The slice \<open>content[12:12+size]\<close> is
  shorter than \<open>size\<close> when the file is.
\<close>

definition st_decode ::
  "(byte list \<Rightarrow> pyexn + byte list) \<Rightarrow> (byte list \<Rightarrow> pyexn + string) \<Rightarrow> byte list \<Rightarrow> pyexn + string" where
  "st_decode decompress decode content =
     (case st_header content of
        Inl e \<Rightarrow> Inl e
      | Inr (xorkey, sz, xorkeyverify) \<Rightarrow>
          (let data = take (nat sz) (drop 12 content);
               data' = map (\<lambda>b. b XOR word_of_int xorkey) data
           in case decompress data' of
                Inl e \<Rightarrow> Inl e
              | Inr decompressed_data \<Rightarrow> decode (drop 512 decompressed_data)))"

text \<open>
  The file that was found: a \<open>.lua\<close> file, read as text, or an \<open>.st\<close> file, read as
  bytes. \<open>get_data_local\<close> returns the keys it writes to \<open>depot_keys.json\<close> and the
  manifest paths it collects.
\<close>

datatype source_file = LuaFile string | StFile "byte list"

definition get_data_local ::
  "(byte list \<Rightarrow> pyexn + byte list) \<Rightarrow> (byte list \<Rightarrow> pyexn + string) \<Rightarrow> (string \<Rightarrow> bool) \<Rightarrow> string
     \<Rightarrow> source_file \<Rightarrow> pyexn + (depot_keys \<times> string list)" where
  "get_data_local decompress decode found work_dir src =
     (case (case src of LuaFile content \<Rightarrow> Inr content
                      | StFile content \<Rightarrow> st_decode decompress decode content) of
        Inl e \<Rightarrow> Inl e
      | Inr content \<Rightarrow> Inr (parse_content found work_dir content))"

subsection \<open>The last key carried, in the specification's words\<close>

text \<open>
  Which key a directive carries, the keys the directives for depot \<open>d\<close> carry, in the
  order of the text, and the last of them.
\<close>

definition carried_key :: "string option \<Rightarrow> string option" where
  "carried_key group2 = (case group2 of None \<Rightarrow> None | Some k \<Rightarrow> if k = [] then None else Some k)"

definition keys_for :: "string \<Rightarrow> (string \<times> string option) list \<Rightarrow> string list" where
  "keys_for d ms = List.map_filter (\<lambda>m. carried_key (snd m)) (filter (\<lambda>m. fst m = d) ms)"

definition last_key_for :: "string \<Rightarrow> (string \<times> string option) list \<Rightarrow> string option" where
  "last_key_for d ms = (if keys_for d ms = [] then None else Some (last (keys_for d ms)))"

subsection \<open>Texts of directives, in the specification's words\<close>

text \<open>
  A text is written as a sequence of \<open>addappid\<close> directives, each after some filler
  text, and a tail. A directive is written \<open>addappid(depot)\<close> or
  \<open>addappid(depot,flags,"key")\<close>, with decimal \<open>depot\<close> and \<open>flags\<close> and a lower-case
  hexadecimal \<open>key\<close>. The filler and the tail are any text in which no \<open>a\<close> is followed by
  a \<open>d\<close> and which does not end in \<open>a\<close>, so no directive starts there; they may hold
  \<open>setManifestid\<close> directives. \<open>directive_of\<close> is what a written directive says: its
  depot id and its key, if it has one.
\<close>

type_synonym directive = "string \<times> string \<times> (string \<times> string) option"

definition directive_of :: "directive \<Rightarrow> string \<times> string option" where
  "directive_of x = (fst (snd x), map_option snd (snd (snd x)))"

definition write_addappid :: "string \<times> (string \<times> string) option \<Rightarrow> string" where
  "write_addappid x =
     ''addappid('' @ fst x
       @ (case snd x of None \<Rightarrow> ''''
          | Some (flags, key) \<Rightarrow> '','' @ flags @ '','' @ [CHR 0x22] @ key @ [CHR 0x22])
       @ '')''"

fun write_text :: "directive list \<Rightarrow> string \<Rightarrow> string" where
  "write_text [] tail = tail"
| "write_text (x # xs) tail = fst x @ write_addappid (snd x) @ write_text xs tail"

fun no_addappid :: "string \<Rightarrow> bool" where
  "no_addappid [] = True"
| "no_addappid [c] = (c \<noteq> CHR ''a'')"
| "no_addappid (c # d # cs) = ((c \<noteq> CHR ''a'' \<or> d \<noteq> CHR ''d'') \<and> no_addappid (d # cs))"

definition well_formed :: "directive \<Rightarrow> bool" where
  "well_formed x =
     (no_addappid (fst x)
      \<and> fst (snd x) \<noteq> [] \<and> list_all is_digit (fst (snd x))
      \<and> (case snd (snd x) of None \<Rightarrow> True
          | Some (flags, key) \<Rightarrow> flags \<noteq> [] \<and> list_all is_digit flags
                                 \<and> key \<noteq> [] \<and> list_all is_hexlower key))"

definition example_directives :: string where
  "example_directives =
     ''addappid(1,0,'' @ [CHR 0x22] @ ''aa'' @ [CHR 0x22] @ '')'' @ [CHR 0x0A]
     @ ''addappid(1)'' @ [CHR 0x0A]
     @ ''setManifestid(1,'' @ [CHR 0x22] @ ''22'' @ [CHR 0x22] @ '')'' @ [CHR 0x0A]
     @ ''addappid(1,1,'' @ [CHR 0x22] @ ''bb'' @ [CHR 0x22] @ '')''
     @ '' addappid(1) addappid(2)'' @ [CHR 0x0A]"

subsection \<open>Writing a container, in the specification's words\<close>

text \<open>
  The repository only reads containers. A container that holds a given stream is, in the
  specification's words, the header of three little-endian 32-bit integers
  (\<open>xorkey_raw\<close>, the payload size, \<open>verify\<close>) followed by the stream with every byte
  XORed with the derived key.
\<close>

definition st_key :: "int \<Rightarrow> byte" where
  "st_key xorkey_raw = word_of_int ((xorkey_raw XOR 0xFFFEA4C8) AND 0xFF)"

definition st_container :: "int \<Rightarrow> int \<Rightarrow> byte list \<Rightarrow> byte list" where
  "st_container xorkey_raw verify stream =
     pack_III xorkey_raw (int (length stream)) verify @ map (\<lambda>b. b XOR st_key xorkey_raw) stream"

subsection \<open>Library instances: zlib with stored blocks, UTF-8 on ASCII\<close>

text \<open>
  \<open>zlib.decompress\<close> and \<open>bytes.decode\<close> are parameters of the decoder. The instances
  below are used where a closed statement needs concrete ones. \<open>zlib_decompress\<close> follows
  RFC 1950 and RFC 1951 for streams made of stored blocks: the two header bytes are checked
  as zlib checks them, each stored block carries its length and the length's complement,
  and the Adler-32 checksum of the output ends the stream. A Huffman-coded block is outside
  this instance (\<open>NotModelled\<close>, which is not a Python exception). \<open>zlib_store\<close> is what
  \<open>zlib.compress(d, 0)\<close> writes for at most 65535 bytes: one final stored block.
\<close>

definition adler32 :: "byte list \<Rightarrow> nat" where
  "adler32 bs =
     (case fold (\<lambda>x (a, b). ((a + unat x) mod 65521, (b + (a + unat x) mod 65521) mod 65521)) bs (1, 0)
      of (a, b) \<Rightarrow> b * 65536 + a)"

definition le16 :: "nat \<Rightarrow> byte list" where
  "le16 n = [of_nat n, of_nat (n div 256)]"

definition be32 :: "nat \<Rightarrow> byte list" where
  "be32 n = [of_nat (n div 16777216), of_nat (n div 65536), of_nat (n div 256), of_nat n]"

fun inflate_blocks :: "byte list \<Rightarrow> pyexn + (byte list \<times> byte list)" where
  "inflate_blocks [] = Inl ZlibError"
| "inflate_blocks (h # bs) =
     (if drop_bit 1 h AND 3 = 0 then
        (if length bs < 4 then Inl ZlibError
         else
           (let len = unat (bs ! 0) + 256 * unat (bs ! 1);
                nlen = unat (bs ! 2) + 256 * unat (bs ! 3);
                body = drop 4 bs
            in if len + nlen = 65535 then
                 (if length body < len then Inl ZlibError
                  else if h AND 1 = 1 then Inr (take len body, drop len body)
                  else (case inflate_blocks (drop len body) of
                          Inl e \<Rightarrow> Inl e
                        | Inr (out, rest) \<Rightarrow> Inr (take len body @ out, rest)))
               else Inl ZlibError))
      else if drop_bit 1 h AND 3 = 3 then Inl ZlibError
      else Inl NotModelled)"

definition zlib_header_ok :: "byte \<Rightarrow> byte \<Rightarrow> bool" where
  "zlib_header_ok cmf flg =
     ((unat cmf * 256 + unat flg) mod 31 = 0 \<and> cmf AND 0x0F = 8 \<and> drop_bit 4 cmf \<le> 7
      \<and> flg AND 0x20 = 0)"

definition zlib_decompress :: "byte list \<Rightarrow> pyexn + byte list" where
  "zlib_decompress bs =
     (case bs of
        cmf # flg # deflate \<Rightarrow>
          (if zlib_header_ok cmf flg then
             (case inflate_blocks deflate of
                Inl e \<Rightarrow> Inl e
              | Inr (out, trailer) \<Rightarrow>
                  if length trailer < 4 then Inl ZlibError
                  else if take 4 trailer = be32 (adler32 out) then Inr out
                  else Inl ZlibError)
           else Inl ZlibError)
      | _ \<Rightarrow> Inl ZlibError)"

definition zlib_store :: "byte list \<Rightarrow> byte list" where
  "zlib_store d =
     [0x78, 0x01] @ [0x01] @ le16 (length d) @ le16 (65535 - length d) @ d @ be32 (adler32 d)"

text \<open>
  On bytes below \<open>0x80\<close> UTF-8 is the identity on code points; a byte from \<open>0x80\<close> on
  begins or continues a longer sequence, which this instance leaves out.
\<close>

definition utf8_decode_ascii :: "byte list \<Rightarrow> pyexn + string" where
  "utf8_decode_ascii bs =
     (if list_all (\<lambda>b. b < 0x80) bs then Inr (map (\<lambda>b. char_of (unat b)) bs)
      else Inl NotModelled)"

definition utf8_encode_ascii :: "string \<Rightarrow> byte list" where
  "utf8_encode_ascii s = map (\<lambda>c. of_char c) s"

text \<open>A Format-A text with one keyed \<open>addappid\<close> and one \<open>setManifestid\<close>.\<close>

definition example_text :: string where
  "example_text = ''addappid(1,0,'' @ [CHR 0x22] @ ''ab'' @ [CHR 0x22] @ '')setManifestid(1,'' @ [CHR 0x22] @ ''22'' @ [CHR 0x22] @ '')''"

section \<open>\<open>ManifestFileIndex\<close> in \<open>gcmds.py\<close>\<close>

text \<open>
  The index holds the manifests it was built over and \<open>_path_cache\<close>, a \<open>dict\<close> from a
  path to a pair (manifest, file mapping) or to \<open>None\<close>: a map whose value at a path is
  \<open>None\<close> for no entry, \<open>Some None\<close> for an entry holding \<open>None\<close>, and
  \<open>Some (Some ref)\<close> for an entry holding a pair.

  \<open>manifest.iter_files(path)\<close> belongs to the \<open>steam\<close> library: \<open>iter_files\<close> is a
  parameter that gives, for a manifest and a path, the file mappings of the files it
  yields, in order. \<open>next\<close> takes the first, or raises \<open>StopIteration\<close> on none.
\<close>

record ('m, 'f) file_index =
  manifests :: "'m list"
  path_cache :: "string \<rightharpoonup> ('m \<times> 'f) option"

definition new_index :: "'m list \<Rightarrow> ('m, 'f) file_index" where
  "new_index ms = \<lparr>manifests = ms, path_cache = Map.empty\<rparr>"

text \<open>
  Lines 63--69, the loop over the manifests. Its state is the variable \<open>ref\<close>, the cache,
  and the manifests whose \<open>iter_files\<close> has been called so far (a record of the calls,
  kept to state how much a lookup scans). A match assigns \<open>ref\<close> and the cache entry, and
  the loop goes on to the next manifest.
\<close>

fun scan_manifests ::
  "('m \<Rightarrow> string \<Rightarrow> 'f list) \<Rightarrow> string \<Rightarrow> 'm list
     \<Rightarrow> ('m \<times> 'f) option \<times> (string \<rightharpoonup> ('m \<times> 'f) option) \<times> 'm list
     \<Rightarrow> ('m \<times> 'f) option \<times> (string \<rightharpoonup> ('m \<times> 'f) option) \<times> 'm list" where
  "scan_manifests iter_files path [] st = st"
| "scan_manifests iter_files path (manifest # ms) (ref, cache, probed) =
     (case iter_files manifest path of
        [] \<Rightarrow> scan_manifests iter_files path ms (ref, cache, probed @ [manifest])
      | foundfile # _ \<Rightarrow>
          scan_manifests iter_files path ms
            (Some (manifest, foundfile), cache(path \<mapsto> Some (manifest, foundfile)),
             probed @ [manifest]))"

text \<open>
  Lines 55--70. \<open>_path_cache.get(path, None)\<close> is \<open>None\<close> both for no entry and for an
  entry holding \<open>None\<close>; a pair is truthy. The result is the returned value, the index
  after the call, and the manifests scanned by the call.
\<close>

definition locate_file_mapping ::
  "('m \<Rightarrow> string \<Rightarrow> 'f list) \<Rightarrow> ('m, 'f) file_index \<Rightarrow> string
     \<Rightarrow> ('m \<times> 'f) option \<times> ('m, 'f) file_index \<times> 'm list" where
  "locate_file_mapping iter_files idx path =
     (let ref = (case path_cache idx path of None \<Rightarrow> None | Some r \<Rightarrow> r)
      in case ref of
           Some r \<Rightarrow> (Some r, idx, [])
         | None \<Rightarrow>
             (case scan_manifests iter_files path (manifests idx)
                     (ref, (path_cache idx)(path \<mapsto> None), [])
              of (ref', cache', probed) \<Rightarrow> (ref', idx\<lparr>path_cache := cache'\<rparr>, probed)))"

definition file_exists :: "('m \<Rightarrow> string \<Rightarrow> 'f list) \<Rightarrow> ('m, 'f) file_index \<Rightarrow> string \<Rightarrow> bool" where
  "file_exists iter_files idx path = (fst (locate_file_mapping iter_files idx path) \<noteq> None)"

subsection \<open>First and last match, in the specification's words\<close>

text \<open>
  What a manifest provides for a path, and the first and the last manifest of a list that
  provide something.
\<close>

definition provides :: "('m \<Rightarrow> string \<Rightarrow> 'f list) \<Rightarrow> string \<Rightarrow> 'm \<Rightarrow> ('m \<times> 'f) option" where
  "provides iter_files path manifest =
     (case iter_files manifest path of [] \<Rightarrow> None | foundfile # _ \<Rightarrow> Some (manifest, foundfile))"

definition first_match :: "('m \<Rightarrow> string \<Rightarrow> 'f list) \<Rightarrow> 'm list \<Rightarrow> string \<Rightarrow> ('m \<times> 'f) option" where
  "first_match iter_files ms path =
     (case List.map_filter (provides iter_files path) ms of [] \<Rightarrow> None | r # _ \<Rightarrow> Some r)"

definition last_match :: "('m \<Rightarrow> string \<Rightarrow> 'f list) \<Rightarrow> 'm list \<Rightarrow> string \<Rightarrow> ('m \<times> 'f) option" where
  "last_match iter_files ms path =
     (case rev (List.map_filter (provides iter_files path) ms) of [] \<Rightarrow> None | r # _ \<Rightarrow> Some r)"

section \<open>\<open>sanitizerelpath\<close> in \<open>storage.py\<close> and the target of \<open>download_to\<close>\<close>

text \<open>
  Paths are strings. The functions of \<open>pathlib\<close> and \<open>os.path\<close> are modelled as their
  POSIX versions (\<open>PurePosixPath\<close>, \<open>posixpath\<close>) define them: \<open>split_on\<close> is
  \<open>str.split\<close>, \<open>join_with\<close> is \<open>str.join\<close>.
\<close>

fun split_on :: "char \<Rightarrow> string \<Rightarrow> string list" where
  "split_on sep [] = [[]]"
| "split_on sep (c # cs) =
     (if c = sep then [] # split_on sep cs
      else (case split_on sep cs of [] \<Rightarrow> [[c]] | p # ps \<Rightarrow> (c # p) # ps))"

fun join_with :: "string \<Rightarrow> string list \<Rightarrow> string" where
  "join_with sep [] = []"
| "join_with sep [p] = p"
| "join_with sep (p # q # ps) = p @ sep @ join_with sep (q # ps)"

definition startswith :: "string \<Rightarrow> string \<Rightarrow> bool" where
  "startswith s p = (take (length p) s = p)"

text \<open>
  \<open>Path(p).as_posix()\<close>: the root (one slash, or two when the path begins with exactly
  two), then the components that are neither empty nor \<open>.\<close>, joined by slashes; the
  path without root and components is \<open>.\<close>. A component \<open>..\<close> is kept.
\<close>

definition as_posix :: "string \<Rightarrow> string" where
  "as_posix p =
     (let root = (if startswith p ''//'' \<and> \<not> startswith p ''///'' then ''//''
                  else if startswith p ''/'' then ''/'' else '''');
          parts = filter (\<lambda>x. x \<noteq> '''' \<and> x \<noteq> ''.'') (split_on CHR ''/'' p)
      in if root = '''' \<and> parts = [] then ''.'' else root @ join_with ''/'' parts)"

text \<open>
  Lines 22--25 of \<open>storage.py\<close>:
  \<open>Path(path.replace('\\', '/')).as_posix().lstrip('/')\<close>.
\<close>

definition sanitizerelpath :: "string \<Rightarrow> string" where
  "sanitizerelpath path =
     dropWhile (\<lambda>c. c = CHR ''/'')
       (as_posix (map (\<lambda>c. if c = CHR 0x5C then CHR ''/'' else c) path))"

definition basename :: "string \<Rightarrow> string" where
  "basename p = last (split_on CHR ''/'' p)"

definition path_join :: "string \<Rightarrow> string \<Rightarrow> string" where
  "path_join a b =
     (if startswith b ''/'' then b
      else if a = '''' \<or> last a = CHR ''/'' then a @ b
      else a @ ''/'' @ b)"

text \<open>
  \<open>posixpath.normpath\<close>: the loop over the components, then the path put together.
\<close>

definition normpath_step :: "nat \<Rightarrow> string \<Rightarrow> string list \<Rightarrow> string list" where
  "normpath_step initial_slashes seg new_comps =
     (if seg = '''' \<or> seg = ''.'' then new_comps
      else if (if seg = ''..''
               then (initial_slashes = 0 \<and> new_comps = [])
                    \<or> (new_comps \<noteq> [] \<and> last new_comps = ''..'')
               else True)
      then new_comps @ [seg]
      else if new_comps \<noteq> [] then butlast new_comps
      else new_comps)"

definition normpath :: "string \<Rightarrow> string" where
  "normpath path =
     (if path = '''' then ''.''
      else
        (let initial_slashes =
               (if startswith path ''/''
                then (if startswith path ''//'' \<and> \<not> startswith path ''///'' then 2 else 1)
                else 0);
             comps = fold (normpath_step initial_slashes) (split_on CHR ''/'' path) [];
             path' = replicate initial_slashes CHR ''/'' @ join_with ''/'' comps
         in if path' = '''' then ''.'' else path'))"

definition abspath :: "string \<Rightarrow> string \<Rightarrow> string" where
  "abspath cwd path = normpath (if startswith path ''/'' then path else path_join cwd path)"

text \<open>
  Lines 52--59 of \<open>clients.py\<close>: the file \<open>download_to\<close> opens, for the entry's
  \<open>filename\<close>, the \<open>target\<close> directory and the process's working directory \<open>cwd\<close>.
\<close>

definition download_filepath :: "string \<Rightarrow> string \<Rightarrow> string \<Rightarrow> bool \<Rightarrow> string" where
  "download_filepath cwd filename target no_make_dirs =
     (let relpath = sanitizerelpath filename;
          relpath = (if no_make_dirs then basename relpath else relpath);
          relpath = path_join target relpath
      in abspath cwd relpath)"

text \<open>
  A path is inside a root when the root's components are the first components of the
  path.
\<close>

definition path_parts :: "string \<Rightarrow> string list" where
  "path_parts p = filter (\<lambda>x. x \<noteq> '''') (split_on CHR ''/'' p)"

definition inside_root :: "string \<Rightarrow> string \<Rightarrow> bool" where
  "inside_root root p = (take (length (path_parts root)) (path_parts p) = path_parts root)"

section \<open>\<open>CTLDepotFile.download_to\<close> in \<open>clients.py\<close>\<close>

text \<open>
  A chunk has its content hash, its offset in the file and its length. A depot file has
  its name, its size, its chunks in the order \<open>self.chunks\<close> gives them, and whether it is
  a file or a directory.
\<close>

record chunk =
  sha :: "byte list"
  offset :: nat
  cb_original :: nat

record depot_file =
  filename :: string
  file_size :: nat
  chunks :: "chunk list"
  is_file :: bool

text \<open>
  An open binary file: its bytes and the position of the cursor. \<open>read\<close> returns at
  most \<open>k\<close> bytes from the cursor and advances it by what it returned; \<open>write\<close> puts
  the bytes at the cursor, over what is there, and fills a gap after the end with zeros;
  \<open>truncate\<close> cuts the file or extends it with zeros, leaves the cursor, and returns the
  new size.
\<close>

record file_obj =
  data :: "byte list"
  pos :: nat

definition fp_read :: "nat \<Rightarrow> file_obj \<Rightarrow> byte list \<times> file_obj" where
  "fp_read k fp =
     (let cur_data = take k (drop (pos fp) (data fp))
      in (cur_data, fp\<lparr>pos := pos fp + length cur_data\<rparr>))"

definition fp_seek :: "nat \<Rightarrow> file_obj \<Rightarrow> file_obj" where
  "fp_seek k fp = fp\<lparr>pos := k\<rparr>"

definition fp_write :: "byte list \<Rightarrow> file_obj \<Rightarrow> file_obj" where
  "fp_write bs fp =
     fp\<lparr>data := take (pos fp) (data fp) @ replicate (pos fp - length (data fp)) 0 @ bs
                  @ drop (pos fp + length bs) (data fp),
         pos := pos fp + length bs\<rparr>"

definition fp_truncate :: "nat \<Rightarrow> file_obj \<Rightarrow> nat \<times> file_obj" where
  "fp_truncate k fp = (k, fp\<lparr>data := take k (data fp) @ replicate (k - length (data fp)) 0\<rparr>)"

text \<open>
  The progress bar, as the class \<open>fake_tqdm\<close> of \<open>tqdm.py\<close> counts: \<open>update\<close> adds to
  \<open>n\<close> unless the bar is disabled or cancelled. \<open>pbar\<close> is \<open>None\<close> or a bar, and a bar
  is truthy.
\<close>

record pbar =
  pbar_n :: nat
  pbar_disable :: bool
  pbar_cancelled :: bool

definition pbar_update :: "nat \<Rightarrow> pbar \<Rightarrow> pbar" where
  "pbar_update k p = (if pbar_disable p \<or> pbar_cancelled p then p else p\<lparr>pbar_n := pbar_n p + k\<rparr>)"

definition pbar_update_opt :: "nat \<Rightarrow> pbar option \<Rightarrow> pbar option" where
  "pbar_update_opt k p = map_option (pbar_update k) p"

text \<open>
  Lines 79--101, the loop over the chunks. Its state is the open file, the progress bar,
  and the hashes \<open>get_chunk\<close> was called with, in order. \<open>sha1_hash\<close> and
  \<open>get_chunk\<close> belong to the \<open>steam\<close> library and are parameters; \<open>get_chunk\<close> may
  raise, which ends the loop.
\<close>

record dl_state =
  fp :: file_obj
  progress :: "pbar option"
  fetched :: "byte list list"

fun chunk_loop ::
  "(byte list \<Rightarrow> byte list) \<Rightarrow> (byte list \<Rightarrow> pyexn + byte list) \<Rightarrow> bool \<Rightarrow> chunk list
     \<Rightarrow> dl_state \<Rightarrow> pyexn option \<times> dl_state" where
  "chunk_loop sha1_hash get_chunk verify [] st = (None, st)"
| "chunk_loop sha1_hash get_chunk verify (c # cs) st =
     (let (cur_data, fp1) = (if verify then fp_read (cb_original c) (fp st) else ([], fp st))
      in if verify \<and> sha1_hash cur_data = sha c
         then chunk_loop sha1_hash get_chunk verify cs
                (st\<lparr>fp := fp1, progress := pbar_update_opt (cb_original c) (progress st)\<rparr>)
         else
           (let fp2 = (if verify then fp_seek (offset c) fp1 else fp1)
            in case get_chunk (sha c) of
                 Inl e \<Rightarrow> (Some e, st\<lparr>fp := fp2, fetched := fetched st @ [sha c]\<rparr>)
               | Inr chunk_data \<Rightarrow>
                   chunk_loop sha1_hash get_chunk verify cs
                     (st\<lparr>fp := fp_write chunk_data fp2,
                         progress := pbar_update_opt (cb_original c) (progress st),
                         fetched := fetched st @ [sha c]\<rparr>)))"

text \<open>
  Lines 51--101. \<open>fs\<close> maps the path of each existing file to its bytes. The result is
  the exception raised, if any, the files afterwards, the progress bar afterwards, and the
  calls of \<open>get_chunk\<close>. Mode \<open>r+b\<close> opens the file as it is, mode \<open>wb\<close> empties
  it; \<open>seek(0, 2)\<close> puts the cursor at the end.
\<close>

record dl_result =
  raised :: "pyexn option"
  files :: "string \<rightharpoonup> byte list"
  progress_after :: "pbar option"
  get_chunk_calls :: "byte list list"

definition download_to ::
  "(byte list \<Rightarrow> byte list) \<Rightarrow> (byte list \<Rightarrow> pyexn + byte list) \<Rightarrow> string
     \<Rightarrow> (string \<rightharpoonup> byte list) \<Rightarrow> depot_file \<Rightarrow> string \<Rightarrow> bool \<Rightarrow> pbar option \<Rightarrow> bool
     \<Rightarrow> dl_result" where
  "download_to sha1_hash get_chunk cwd fs self target no_make_dirs pbar verify =
     (let filepath = download_filepath cwd (filename self) target no_make_dirs;
          (verify', opened) = (case fs filepath of
                                 None \<Rightarrow> (False, [])
                               | Some bs \<Rightarrow> (verify, if verify then bs else []));
          fp0 = \<lparr>data = opened, pos = length opened\<rparr>;
          (newsize, fp1) = (if pos fp0 \<noteq> file_size self then fp_truncate (file_size self) fp0
                            else (file_size self, fp0))
      in if newsize \<noteq> file_size self
         then \<lparr>raised = Some SteamError, files = fs(filepath \<mapsto> data fp1),
               progress_after = pbar, get_chunk_calls = []\<rparr>
         else
           (case chunk_loop sha1_hash get_chunk verify' (chunks self)
                   \<lparr>fp = fp_seek 0 fp1, progress = pbar, fetched = []\<rparr>
            of (e, st) \<Rightarrow>
              \<lparr>raised = e, files = fs(filepath \<mapsto> data (fp st)),
               progress_after = progress st, get_chunk_calls = fetched st\<rparr>))"

subsection \<open>A complete, correct file\<close>

text \<open>
  The file on disk has the size of the entry, and the bytes at each chunk's offset, of the
  chunk's length, hash to the chunk's content hash.
\<close>

definition chunk_matches :: "(byte list \<Rightarrow> byte list) \<Rightarrow> byte list \<Rightarrow> chunk \<Rightarrow> bool" where
  "chunk_matches sha1_hash bs c = (sha1_hash (take (cb_original c) (drop (offset c) bs)) = sha c)"

definition file_complete :: "(byte list \<Rightarrow> byte list) \<Rightarrow> depot_file \<Rightarrow> byte list \<Rightarrow> bool" where
  "file_complete sha1_hash self bs =
     (length bs = file_size self \<and> list_all (chunk_matches sha1_hash bs) (chunks self))"

subsection \<open>The layout of the chunks\<close>

text \<open>
  The chunks are listed one after the other from offset \<open>start\<close>: the first at
  \<open>start\<close>, and each of the others where the one listed before it ends.
\<close>

fun chunks_laid_out :: "nat \<Rightarrow> chunk list \<Rightarrow> bool" where
  "chunks_laid_out start [] = True"
| "chunks_laid_out start (c # cs) = (offset c = start \<and> chunks_laid_out (start + cb_original c) cs)"

text \<open>
  Inputs for closed statements: a hash, here the Adler-32 checksum in four bytes; a
  \<open>get_chunk\<close> that serves the data of every chunk of the two entries below; an entry
  whose two chunks are listed with the later offset first; and an entry whose two chunks
  are listed in the order of their offsets, the second starting before the first ends.
\<close>

definition example_hash :: "byte list \<Rightarrow> byte list" where
  "example_hash bs = be32 (adler32 bs)"

definition example_get_chunk :: "byte list \<Rightarrow> pyexn + byte list" where
  "example_get_chunk h =
     (if h = example_hash [1, 2, 3] then Inr [1, 2, 3]
      else if h = example_hash [4, 5] then Inr [4, 5]
      else if h = example_hash [3, 4] then Inr [3, 4]
      else Inl SteamError)"

definition entry_out_of_order :: depot_file where
  "entry_out_of_order =
     \<lparr>filename = ''a/b.bin'', file_size = 5,
      chunks = [\<lparr>sha = example_hash [4, 5], offset = 3, cb_original = 2\<rparr>,
                \<lparr>sha = example_hash [1, 2, 3], offset = 0, cb_original = 3\<rparr>],
      is_file = True\<rparr>"

definition entry_overlapping :: depot_file where
  "entry_overlapping =
     \<lparr>filename = ''a/b.bin'', file_size = 5,
      chunks = [\<lparr>sha = example_hash [1, 2, 3], offset = 0, cb_original = 3\<rparr>,
                \<lparr>sha = example_hash [3, 4], offset = 2, cb_original = 2\<rparr>],
      is_file = True\<rparr>"

subsection \<open>What the content servers serve\<close>

text \<open>
  \<open>get_chunk\<close> serves a chunk when it returns data of the chunk's length that hashes to
  the chunk's content hash; \<open>served_data\<close> is that data.
\<close>

definition chunk_served :: "(byte list \<Rightarrow> byte list) \<Rightarrow> (byte list \<Rightarrow> pyexn + byte list) \<Rightarrow> chunk \<Rightarrow> bool" where
  "chunk_served H get c =
     (case get (sha c) of Inl e \<Rightarrow> False
      | Inr d \<Rightarrow> length d = cb_original c \<and> H d = sha c)"

definition served_data :: "(byte list \<Rightarrow> pyexn + byte list) \<Rightarrow> chunk \<Rightarrow> byte list" where
  "served_data get c = (case get (sha c) of Inl e \<Rightarrow> [] | Inr d \<Rightarrow> d)"

section \<open>The depot key store: \<open>CachingCDNClient\<close> in \<open>clients.py\<close>\<close>

text \<open>
  A key dictionary maps depot ids to keys: an association list with distinct keys, in
  insertion order. A key file on disk is one of three kinds: a JSON object that loads
  and converts (\<open>int(depot_id)\<close>, \<open>bytes.fromhex(key)\<close>) to a dictionary, a file that
  \<open>json.load\<close> rejects, or JSON whose conversion raises. The file system maps the path
  of each existing key file to its kind; the default store is
  \<open>UserDataFile('depot_keys.json')\<close>.
\<close>

type_synonym key_dict = "(int \<times> byte list) list"

datatype keyfile = KeysJson key_dict | BadJson | BadKeys

definition default_keys_path :: string where
  "default_keys_path = ''~/.steamctl/depot_keys.json''"

text \<open>
  The client's fields that the key store uses: the custom key file given at construction
  (\<open>None\<close> or a path, truthy when not empty) and \<open>_depot_keys\<close>.
\<close>

record cdn_client =
  custom_depot_keys_file :: "string option"
  depot_keys_field :: "key_dict option"

definition truthy_path :: "string option \<Rightarrow> bool" where
  "truthy_path p = (case p of None \<Rightarrow> False | Some s \<Rightarrow> s \<noteq> [])"

text \<open>
  Lines 170--173, the default store: \<open>read_json\<close> gives \<open>None\<close> for a missing file
  and for one that does not load, and the conversion of what it gives may raise.
\<close>

definition load_default_keys :: "(string \<rightharpoonup> keyfile) \<Rightarrow> pyexn + key_dict" where
  "load_default_keys fs =
     (case fs default_keys_path of
        None \<Rightarrow> Inr []
      | Some BadJson \<Rightarrow> Inr []
      | Some BadKeys \<Rightarrow> Inl ValueError
      | Some (KeysJson ks) \<Rightarrow> Inr ks)"

text \<open>
  Lines 155--173. A custom file that exists and loads gives its keys; any exception while
  loading it is caught and the default store is read instead.
\<close>

definition get_cached_depot_keys :: "(string \<rightharpoonup> keyfile) \<Rightarrow> cdn_client \<Rightarrow> pyexn + key_dict" where
  "get_cached_depot_keys fs self =
     (case custom_depot_keys_file self of
        None \<Rightarrow> load_default_keys fs
      | Some p \<Rightarrow>
          if p \<noteq> [] then
            (case fs p of
               Some (KeysJson ks) \<Rightarrow> Inr ks
             | _ \<Rightarrow> load_default_keys fs)
          else load_default_keys fs)"

text \<open>
  \<open>d.update(other)\<close>, the truth value of \<open>_depot_keys\<close>, and the property
  \<open>depot_keys\<close> (lines 144--149), which loads the keys when \<open>_depot_keys\<close> is \<open>None\<close>
  or empty.
\<close>

definition dict_update_all :: "key_dict \<Rightarrow> key_dict \<Rightarrow> key_dict" where
  "dict_update_all d other = fold (\<lambda>kv. AList.update (fst kv) (snd kv)) other d"

definition dict_truthy :: "key_dict option \<Rightarrow> bool" where
  "dict_truthy d = (case d of None \<Rightarrow> False | Some ks \<Rightarrow> ks \<noteq> [])"

definition depot_keys :: "(string \<rightharpoonup> keyfile) \<Rightarrow> cdn_client \<Rightarrow> pyexn + (key_dict \<times> cdn_client)" where
  "depot_keys fs self =
     (if \<not> dict_truthy (depot_keys_field self) then
        (case get_cached_depot_keys fs self of
           Inl e \<Rightarrow> Inl e
         | Inr cached \<Rightarrow>
             Inr (dict_update_all [] cached,
                  self\<lparr>depot_keys_field := Some (dict_update_all [] cached)\<rparr>))
      else (case depot_keys_field self of
              None \<Rightarrow> Inr ([], self)
            | Some ks \<Rightarrow> Inr (ks, self)))"

text \<open>
  Equality of two dictionaries: the same entries, in any order.
\<close>

definition dict_eq :: "key_dict \<Rightarrow> key_dict \<Rightarrow> bool" where
  "dict_eq a b = (set a = set b)"

text \<open>
  Lines 175--188. The result is the exception raised, if any, the client afterwards and
  the key files afterwards.
\<close>

record save_result =
  save_raised :: "pyexn option"
  client_after :: cdn_client
  files_after :: "string \<rightharpoonup> keyfile"

definition save_cache :: "(string \<rightharpoonup> keyfile) \<Rightarrow> cdn_client \<Rightarrow> save_result" where
  "save_cache fs self =
     (case get_cached_depot_keys fs self of
        Inl e \<Rightarrow> \<lparr>save_raised = Some e, client_after = self, files_after = fs\<rparr>
      | Inr cached_depot_keys \<Rightarrow>
          (case depot_keys fs self of
             Inl e \<Rightarrow> \<lparr>save_raised = Some e, client_after = self, files_after = fs\<rparr>
           | Inr (ks, self1) \<Rightarrow>
               if dict_eq cached_depot_keys ks
               then \<lparr>save_raised = None, client_after = self1, files_after = fs\<rparr>
               else
                 (let out = dict_update_all ks cached_depot_keys;
                      self2 = self1\<lparr>depot_keys_field := Some out\<rparr>
                  in if \<not> truthy_path (custom_depot_keys_file self)
                     then \<lparr>save_raised = None, client_after = self2,
                           files_after = fs(default_keys_path \<mapsto> KeysJson out)\<rparr>
                     else \<lparr>save_raised = None, client_after = self2, files_after = fs\<rparr>)))"

section \<open>The download scheduler: \<open>cmd_depot_download\<close> in \<open>gcmds.py\<close>\<close>

text \<open>
  The command runs in the main greenlet; the download tasks and the cancellation monitor
  are other greenlets, which run only while the main greenlet waits: inside
  \<open>tasks.spawn\<close>, which waits for a free slot of the pool, and inside \<open>tasks.join\<close>.
  What the others do during one such wait is an event: how many running tasks finish, and
  whether the monitor finds \<open>is_canceling\<close> set. The environment gives the event of the
  \<open>k\<close>-th call of \<open>tasks.spawn\<close> and the event of \<open>tasks.join\<close>; every theorem below
  holds for every environment. \<open>KeyboardInterrupt\<close>, which the default signal handler
  raises at any instruction, is not part of the model: the program installs its own
  handler for \<open>SIGINT\<close>, which sets \<open>is_canceling\<close>.
\<close>

record event =
  finishing :: nat
  cancel_request :: bool

record environment =
  during_spawn :: "nat \<Rightarrow> event"
  during_join :: event

text \<open>
  The state of the command: the flag \<open>should_cancel[0]\<close>; the files \<open>tasks.spawn\<close> was
  called for, in order (a task counts as submitted when the loop calls \<open>tasks.spawn\<close>);
  how many of those calls were made with the flag already set; the tasks running,
  finished and killed; and the two progress bars \<open>pbar\<close> (bytes) and \<open>pbar2\<close> (files).
\<close>

record sched =
  should_cancel :: bool
  submitted :: "depot_file list"
  spawned_after_cancel :: nat
  running :: nat
  finished :: nat
  killed :: nat
  bar_data :: "pbar option"
  bar_files :: "pbar option"

text \<open>
  \<open>fake_tqdm.cancel\<close>, and \<open>cancel_download\<close> (lines 155--176): the flag is set, both
  bars are cancelled, and \<open>global_tasks.kill(block=True)\<close> kills the running tasks.
\<close>

definition pbar_cancel :: "pbar \<Rightarrow> pbar" where
  "pbar_cancel p = (if \<not> pbar_cancelled p then p\<lparr>pbar_cancelled := True, pbar_disable := True\<rparr> else p)"

definition cancel_download :: "sched \<Rightarrow> sched" where
  "cancel_download st =
     st\<lparr>should_cancel := True,
        bar_files := map_option pbar_cancel (bar_files st),
        bar_data := map_option pbar_cancel (bar_data st),
        killed := killed st + running st,
        running := 0\<rparr>"

text \<open>
  The monitor (lines 226--249) acts once, when it finds \<open>is_canceling\<close> set while the
  flag is clear.
\<close>

definition check_cancellation :: "event \<Rightarrow> sched \<Rightarrow> sched" where
  "check_cancellation ev st =
     (if \<not> should_cancel st \<and> cancel_request ev then cancel_download st else st)"

definition others_run :: "event \<Rightarrow> sched \<Rightarrow> sched" where
  "others_run ev st =
     check_cancellation ev
       (st\<lparr>running := running st - min (finishing ev) (running st),
           finished := finished st + min (finishing ev) (running st)\<rparr>)"

text \<open>\<open>tasks.spawn(depotfile.download_to, ...)\<close>: the call, then the wait inside it.\<close>

definition spawn :: "environment \<Rightarrow> depot_file \<Rightarrow> sched \<Rightarrow> sched" where
  "spawn env depotfile st =
     others_run (during_spawn env (Suc (length (submitted st))))
       (st\<lparr>submitted := submitted st @ [depotfile],
           spawned_after_cancel := spawned_after_cancel st + (if should_cancel st then 1 else 0),
           running := running st + 1\<rparr>)"

text \<open>
  Lines 258--271, the loop over the files of a manifest, and lines 254--271, the loop over
  the manifests. Each tests the flag first and breaks when it is set; a directory is
  skipped; after \<open>tasks.spawn\<close> the files bar is updated when there is one and the flag
  is still clear.
\<close>

fun file_loop :: "environment \<Rightarrow> sched \<Rightarrow> depot_file list \<Rightarrow> sched" where
  "file_loop env st [] = st"
| "file_loop env st (depotfile # rest) =
     (if should_cancel st then st
      else if \<not> is_file depotfile then file_loop env st rest
      else
        (let st1 = spawn env depotfile st;
             st2 = (if bar_files st1 \<noteq> None \<and> \<not> should_cancel st1
                    then st1\<lparr>bar_files := pbar_update_opt 1 (bar_files st1)\<rparr> else st1)
         in file_loop env st2 rest))"

fun manifest_loop :: "environment \<Rightarrow> sched \<Rightarrow> depot_file list list \<Rightarrow> sched" where
  "manifest_loop env st [] = st"
| "manifest_loop env st (manifest # rest) =
     (if should_cancel st then st
      else manifest_loop env (file_loop env st manifest) rest)"

text \<open>
  \<open>tasks.join()\<close> returns when no task runs any more: all have finished, or the monitor
  has killed them. The \<open>finally\<close> block kills what is left and cancels the bars.
\<close>

definition tasks_join :: "environment \<Rightarrow> sched \<Rightarrow> sched" where
  "tasks_join env st =
     (if cancel_request (during_join env) then others_run (during_join env) st
      else st\<lparr>running := 0, finished := finished st + running st\<rparr>)"

definition finally_cleanup :: "sched \<Rightarrow> sched" where
  "finally_cleanup st =
     st\<lparr>killed := killed st + running st, running := 0,
        bar_files := map_option pbar_cancel (bar_files st),
        bar_data := map_option pbar_cancel (bar_data st)\<rparr>"

definition initial_sched :: "bool \<Rightarrow> sched" where
  "initial_sched show_progress =
     \<lparr>should_cancel = False, submitted = [], spawned_after_cancel = 0,
      running = 0, finished = 0, killed = 0,
      bar_data = (if show_progress
                  then Some \<lparr>pbar_n = 0, pbar_disable = False, pbar_cancelled = False\<rparr> else None),
      bar_files = (if show_progress
                   then Some \<lparr>pbar_n = 0, pbar_disable = False, pbar_cancelled = False\<rparr> else None)\<rparr>"

text \<open>
  Lines 148--305. \<open>show_progress\<close> is \<open>not args.no_progress and sys.stderr.isatty()\<close>.
  Without a file to download the command raises \<open>SteamError\<close>, whose handler returns 1;
  the \<open>finally\<close> block then reads \<open>cancel_monitor\<close>, which is assigned only later in
  the \<open>try\<close> block, and the command ends with \<open>UnboundLocalError\<close>.
\<close>

datatype outcome = Returned int | Raised pyexn

definition cmd_depot_download ::
  "environment \<Rightarrow> bool \<Rightarrow> depot_file list list \<Rightarrow> outcome \<times> sched" where
  "cmd_depot_download env show_progress manifest_list =
     (let total_files = length (filter is_file (concat manifest_list))
      in if total_files = 0 then (Raised UnboundLocalError, initial_sched False)
         else
           (let st1 = manifest_loop env (initial_sched show_progress) manifest_list;
                st2 = (if \<not> should_cancel st1 then tasks_join env st1 else st1);
                st3 = finally_cleanup st2
            in (Returned (if \<not> should_cancel st3 then 0 else 1), st3)))"

subsection \<open>What the files bar counts\<close>

text \<open>
  Unless cancellation was requested, the files bar is active and shows the number of
  tasks submitted; every submitted task is running, finished or killed; and every task
  submitted is for a file, none for a directory.
\<close>

definition files_counted :: "sched \<Rightarrow> bool" where
  "files_counted st =
     ((should_cancel st \<or> (case bar_files st of None \<Rightarrow> True
                            | Some b \<Rightarrow> pbar_n b = length (submitted st)
                                        \<and> \<not> pbar_disable b \<and> \<not> pbar_cancelled b))
      \<and> finished st + running st + killed st = length (submitted st)
      \<and> list_all is_file (submitted st))"

text \<open>
  Inputs for closed statements: a file without chunks, a directory, the environment in which nothing
  happens during a wait, and the one in which the monitor acts during the \<open>k\<close>-th call of
  \<open>tasks.spawn\<close>.
\<close>

definition plain_file :: "string \<Rightarrow> depot_file" where
  "plain_file name = \<lparr>filename = name, file_size = 0, chunks = [], is_file = True\<rparr>"

definition plain_dir :: "string \<Rightarrow> depot_file" where
  "plain_dir name = \<lparr>filename = name, file_size = 0, chunks = [], is_file = False\<rparr>"

definition quiet :: environment where
  "quiet = \<lparr>during_spawn = (\<lambda>k. \<lparr>finishing = 0, cancel_request = False\<rparr>),
            during_join = \<lparr>finishing = 0, cancel_request = False\<rparr>\<rparr>"

definition cancel_during_spawn :: "nat \<Rightarrow> environment" where
  "cancel_during_spawn k =
     \<lparr>during_spawn = (\<lambda>j. \<lparr>finishing = 0, cancel_request = (j = k)\<rparr>),
      during_join = \<lparr>finishing = 0, cancel_request = False\<rparr>\<rparr>"

section \<open>Properties\<close>

subsection \<open>Header round trip\<close>

lemma length_pack_I: "length (pack_I x) = 4"
  by (simp add: pack_I_def)

lemma unpack_pack_I:
  assumes a: "is_u32 x"
  shows "unpack_I (pack_I x) = x"
proof -
  have d1: "x div 65536 = x div 256 div 256"
    by (simp add: div_mult2_eq [symmetric])
  have d2: "x div 16777216 = x div 256 div 256 div 256"
    by (simp add: div_mult2_eq [symmetric])
  have "0 \<le> x div 16777216" "x div 16777216 < 256"
    using a unfolding is_u32_def by linarith+
  then have small: "x div 256 div 256 div 256 mod 256 = x div 256 div 256 div 256"
    unfolding d2 by simp
  show ?thesis
    unfolding unpack_I_def pack_I_def
    by (simp add: uint_word_of_int d1 d2 small)
qed

lemma unpack_pack_III:
  assumes "is_u32 a" "is_u32 b" "is_u32 c"
  shows "unpack_III (pack_III a b c) = Inr (a, b, c)"
  using assms
  by (simp add: unpack_III_def pack_III_def length_pack_I unpack_pack_I)

lemma st_header_pack:
  assumes "is_u32 a" "is_u32 b" "is_u32 c"
  shows "st_header (pack_III a b c @ payload) =
           Inr ((a XOR 0xFFFEA4C8) AND 0xFF, b, c)"
proof -
  have "take 12 (pack_III a b c @ payload) = pack_III a b c"
    by (simp add: pack_III_def length_pack_I)
  then show ?thesis
    using assms by (simp add: st_header_def unpack_pack_III)
qed

text \<open>
  C5 (as amended). For a header whose first field is \<open>xorkey_raw\<close>, the decoder's
  effective key is \<open>(xorkey_raw XOR 0xFFFEA4C8) AND 0xFF\<close>; it is a single byte; and for
  \<open>xorkey_raw = 0x12345678\<close> it is \<open>0xB0\<close>.
\<close>

theorem xorkey_derivation:
  assumes "is_u32 raw" "is_u32 sz" "is_u32 verify"
  shows "st_header (pack_III raw sz verify @ payload) =
           Inr ((raw XOR 0xFFFEA4C8) AND 0xFF, sz, verify)
         \<and> 0 \<le> (raw XOR 0xFFFEA4C8) AND 0xFF
         \<and> (raw XOR 0xFFFEA4C8) AND 0xFF < 256
         \<and> ((0x12345678 :: int) XOR 0xFFFEA4C8) AND 0xFF = 0xB0"
proof -
  have "(raw XOR 0xFFFEA4C8) AND 0xFF = (raw XOR 0xFFFEA4C8) mod 2 ^ 8"
    using take_bit_eq_mask [of 8 "raw XOR 0xFFFEA4C8"]
    by (simp add: take_bit_eq_mod mask_eq_exp_minus_1)
  then have "0 \<le> (raw XOR 0xFFFEA4C8) AND 0xFF" "(raw XOR 0xFFFEA4C8) AND 0xFF < 256"
    by simp_all
  moreover have "((0x12345678 :: int) XOR 0xFFFEA4C8) AND 0xFF = 0xB0"
    by simp
  ultimately show ?thesis
    using st_header_pack [OF assms] by simp
qed

theorem xorkey_derivation_witness:
  "st_header ([0x78, 0x56, 0x34, 0x12, 0, 0, 0, 0, 0, 0, 0, 0] @ [0xAA, 0xBB]) =
     Inr (0xB0, 0, 0)"
proof -
  have p: "pack_III 0x12345678 0 0 = [0x78, 0x56, 0x34, 0x12, 0, 0, 0, 0, 0, 0, 0, 0]"
    by (simp add: pack_III_def pack_I_def)
  have "is_u32 0x12345678" "is_u32 0"
    by (simp_all add: is_u32_def)
  from xorkey_derivation [OF this(1) this(2) this(2), of "[0xAA, 0xBB]"] show ?thesis
    by (simp add: p)
qed

text \<open>
  The value \<open>0xA0\<close> stated for \<open>xorkey_raw = 0x12345678\<close> is not what the decoder
  derives: the low bytes are \<open>0x78\<close> and \<open>0xC8\<close>, and \<open>0x78 XOR 0xC8 = 0xB0\<close>.
\<close>

theorem xorkey_example_counterexample:
  "st_header [0x78, 0x56, 0x34, 0x12, 0, 0, 0, 0, 0, 0, 0, 0] = Inr (0xB0, 0, 0)
   \<and> (0xB0 :: int) \<noteq> 0xA0"
  by (simp add: st_header_def unpack_III_def unpack_I_def)

subsection \<open>Keys registered by \<open>addappid\<close>\<close>

lemma keys_for_Nil: "keys_for d [] = []"
  by (simp add: keys_for_def map_filter_simps)

lemma keys_for_Cons:
  "keys_for d ((d', g) # ms) =
     (case carried_key g of None \<Rightarrow> keys_for d ms
      | Some k \<Rightarrow> if d' = d then k # keys_for d ms else keys_for d ms)"
  by (simp add: keys_for_def map_filter_simps split: option.splits)

lemma addappid_loop_step:
  "addappid_loop ((d', g) # ms) dk =
     (case carried_key g of None \<Rightarrow> addappid_loop ms dk
      | Some k \<Rightarrow> addappid_loop ms (AList.update d' k dk))"
  by (simp add: carried_key_def split: option.splits)

lemma addappid_loop_append:
  "addappid_loop (ms @ ms') dk = addappid_loop ms' (addappid_loop ms dk)"
proof (induction ms arbitrary: dk)
  case Nil
  show ?case by simp
next
  case (Cons m ms)
  obtain d' g where m: "m = (d', g)" by (cases m)
  show ?case
    unfolding m append_Cons addappid_loop_step
    by (cases "carried_key g") (simp_all add: Cons.IH)
qed

lemma addappid_loop_lookup:
  "map_of (addappid_loop ms dk) d =
     (if keys_for d ms = [] then map_of dk d else Some (last (keys_for d ms)))"
proof (induction ms arbitrary: dk)
  case Nil
  show ?case by (simp add: keys_for_Nil)
next
  case (Cons m ms)
  obtain d' g where m: "m = (d', g)" by (cases m)
  show ?case
  proof (cases "carried_key g")
    case None
    then show ?thesis
      unfolding m addappid_loop_step keys_for_Cons using Cons.IH [of dk] by simp
  next
    case (Some k)
    then show ?thesis
      unfolding m addappid_loop_step keys_for_Cons
      using Cons.IH [of "AList.update d' k dk"] by (simp add: update_conv')
  qed
qed

lemma lit_append: "lit p (p @ s) = Some s"
  by (simp add: lit_def)

lemma lit_char: "lit [c] (d # s) = (if d = c then Some s else None)"
  by (auto simp add: lit_def)

lemma many1_run:
  assumes "xs \<noteq> []" "list_all p xs" "\<not> p c"
  shows "many1 p (xs @ c # s) = Some (xs, c # s)"
proof -
  have a: "\<forall>x \<in> set xs. p x" using assms(2) by (simp add: list_all_iff)
  have "takeWhile p (xs @ c # s) = xs"
    using a assms(3) by (simp add: takeWhile_tail takeWhile_eq_all_conv [THEN iffD2])
  moreover have "dropWhile p (xs @ c # s) = c # s"
    using a assms(3) by (simp add: dropWhile_append3)
  ultimately show ?thesis
    using assms(1) by (simp add: many1_def)
qed

lemma not_space_head: "\<not> is_space c \<Longrightarrow> dropWhile is_space (c # s) = c # s"
  by simp

lemma digit_not_space: "is_digit c \<Longrightarrow> \<not> is_space c"
  by (auto simp add: is_digit_def is_space_def)

lemma skip_space_digits:
  assumes "xs \<noteq> []" "list_all is_digit xs"
  shows "dropWhile is_space (xs @ s) = xs @ s"
  using assms by (cases xs) (simp_all add: digit_not_space)

lemma class_facts:
  "\<not> is_digit CHR '')''" "\<not> is_digit CHR '',''" "\<not> is_space CHR '')''" "\<not> is_space CHR '',''"
  "\<not> is_space (CHR 0x22)" "\<not> is_hexlower (CHR 0x22)"
  by (simp_all add: is_digit_def is_space_def is_hexlower_def)

lemma addappid_match_keyless:
  assumes "depot \<noteq> []" "list_all is_digit depot"
  shows "addappid_match (write_addappid (depot, None) @ rest) = Some ((depot, None), rest)"
proof -
  have m: "many1 is_digit (depot @ CHR '')'' # rest) = Some (depot, CHR '')'' # rest)"
    by (rule many1_run [OF assms class_facts(1)])
  have g: "addappid_key_group (CHR '')'' # rest) = None"
    by (simp add: addappid_key_group_def lit_char)
  show ?thesis
    by (simp add: write_addappid_def addappid_match_def lit_append [of "''addappid(''", simplified]
        skip_space_digits [OF assms] m class_facts g lit_char)
qed


lemma addappid_match_keyed:
  assumes "depot \<noteq> []" "list_all is_digit depot"
    and "flags \<noteq> []" "list_all is_digit flags"
    and "key \<noteq> []" "list_all is_hexlower key"
  shows "addappid_match (write_addappid (depot, Some (flags, key)) @ rest) = Some ((depot, Some key), rest)"
proof -
  let ?after_key = "CHR 0x22 # CHR '')'' # rest"
  let ?after_flags = "CHR '','' # CHR 0x22 # key @ ?after_key"
  let ?after_depot = "CHR '','' # flags @ ?after_flags"
  have m1: "many1 is_digit (depot @ ?after_depot) = Some (depot, ?after_depot)"
    by (rule many1_run [OF assms(1,2) class_facts(2)])
  have m2: "many1 is_digit (flags @ ?after_flags) = Some (flags, ?after_flags)"
    by (rule many1_run [OF assms(3,4) class_facts(2)])
  have m3: "many1 is_hexlower (key @ ?after_key) = Some (key, ?after_key)"
    by (rule many1_run [OF assms(5,6) class_facts(6)])
  have g: "addappid_key_group ?after_depot = Some (key, CHR '')'' # rest)"
    by (simp add: addappid_key_group_def lit_char skip_space_digits [OF assms(3,4)] m2 m3 class_facts)
  show ?thesis
    by (simp add: write_addappid_def addappid_match_def lit_append [of "''addappid(''", simplified]
        skip_space_digits [OF assms(1,2)] m1 g class_facts lit_char)
qed

lemma addappid_match_written:
  assumes "well_formed x"
  shows "addappid_match (write_addappid (snd x) @ rest) = Some (directive_of x, rest)"
proof (cases "snd (snd x)")
  case None
  then have "snd x = (fst (snd x), None)" by (simp add: prod_eq_iff)
  then show ?thesis
    using assms addappid_match_keyless [of "fst (snd x)" rest]
    by (simp add: well_formed_def directive_of_def None)
next
  case (Some fk)
  obtain flags key where fk: "fk = (flags, key)" by (cases fk)
  have "snd x = (fst (snd x), Some (flags, key))" by (simp add: prod_eq_iff Some fk)
  then show ?thesis
    using assms addappid_match_keyed [of "fst (snd x)" flags key rest]
    by (simp add: well_formed_def directive_of_def Some fk)
qed

lemma finditer_skip: "finditer m (length pre) (pre @ rest) = finditer m 0 rest"
  by (induction pre) simp_all

lemma finditer_match:
  assumes "m (w @ rest) = Some (g, rest)" "w \<noteq> []"
  shows "finditer m 0 (w @ rest) = g # finditer m 0 rest"
proof -
  obtain c cs where w: "w = c # cs" using assms(2) by (cases w) auto
  have "finditer m 0 (c # cs @ rest) = g # finditer m (length cs) (cs @ rest)"
    using assms(1) by (simp add: w)
  then show ?thesis
    by (simp add: w finditer_skip)
qed

lemma addappid_no_match:
  assumes "c \<noteq> CHR ''a'' \<or> (\<exists>d s'. s = d # s' \<and> d \<noteq> CHR ''d'')"
  shows "addappid_match (c # s) = None"
  using assms by (auto simp add: addappid_match_def lit_def)

lemma finditer_filler:
  assumes "no_addappid f" "rest \<noteq> []" "hd rest = CHR ''a''"
  shows "finditer addappid_match 0 (f @ rest) = finditer addappid_match 0 rest"
  using assms
proof (induction f rule: no_addappid.induct)
  case 1
  show ?case by simp
next
  case (2 c)
  then have "addappid_match (c # rest) = None"
    by (intro addappid_no_match) simp
  then show ?case by simp
next
  case (3 c d cs)
  then have "addappid_match (c # d # cs @ rest) = None"
    by (intro addappid_no_match) auto
  then show ?case using 3 by simp
qed

lemma finditer_tail:
  assumes "no_addappid f"
  shows "finditer addappid_match 0 f = []"
  using assms
proof (induction f rule: no_addappid.induct)
  case 1
  show ?case by simp
next
  case (2 c)
  then have "addappid_match [c] = None"
    by (intro addappid_no_match) simp
  then show ?case by simp
next
  case (3 c d cs)
  then have "addappid_match (c # d # cs) = None"
    by (intro addappid_no_match) auto
  then show ?case using 3 by simp
qed

lemma finditer_written:
  assumes "list_all well_formed xs" "no_addappid tail"
  shows "finditer addappid_match 0 (write_text xs tail) = map directive_of xs"
  using assms
proof (induction xs)
  case Nil
  then show ?case by (simp add: finditer_tail)
next
  case (Cons x xs)
  let ?rest = "write_text xs tail"
  from Cons.prems have wf: "well_formed x" and wfs: "list_all well_formed xs"
    by simp_all
  have w: "write_addappid (snd x) \<noteq> []" "hd (write_addappid (snd x) @ ?rest) = CHR ''a''"
    by (simp_all add: write_addappid_def)
  have "finditer addappid_match 0 (fst x @ write_addappid (snd x) @ ?rest)
          = finditer addappid_match 0 (write_addappid (snd x) @ ?rest)"
    by (rule finditer_filler) (use wf w in \<open>simp_all add: well_formed_def\<close>)
  also have "\<dots> = directive_of x # finditer addappid_match 0 ?rest"
    using addappid_match_written [OF wf, of ?rest] w(1)
    by (rule finditer_match [where m = addappid_match])
  finally show ?case
    by (simp add: Cons.IH [OF wfs Cons.prems(2)])
qed

text \<open>
  C10. In a text written as \<open>addappid\<close> directives with or without a key, separated by
  text that starts no directive, the parser finds exactly the directives written, in order,
  and for every depot id the mapping it returns holds the key of the last directive for that
  depot that carried a key, and no entry when none did. A directive without a key changes
  nothing in the mapping, wherever it stands among the directives: it neither clears nor
  overwrites a key registered earlier. For any text at all, the mapping holds for every depot
  the last key carried among the directives the scan finds.
\<close>

theorem addappid_keyless_keeps_key:
  assumes "list_all well_formed xs" "no_addappid tail"
  shows "finditer addappid_match 0 (write_text xs tail) = map directive_of xs
         \<and> map_of (fst (parse_content found work_dir (write_text xs tail))) d
             = last_key_for d (map directive_of xs)
         \<and> addappid_loop (ms @ (d', None) # ms') dk = addappid_loop (ms @ ms') dk
         \<and> map_of (fst (parse_content found work_dir content)) d
             = last_key_for d (finditer addappid_match 0 content)"
proof -
  have scan: "finditer addappid_match 0 (write_text xs tail) = map directive_of xs"
    by (rule finditer_written [OF assms])
  have every: "map_of (fst (parse_content found work_dir c)) d
                 = last_key_for d (finditer addappid_match 0 c)" for c
    by (simp add: parse_content_def addappid_loop_lookup last_key_for_def)
  have "addappid_loop (ms @ (d', None) # ms') dk = addappid_loop (ms @ ms') dk"
    by (simp add: addappid_loop_append)
  with scan every [of "write_text xs tail"] every [of content] show ?thesis
    by simp
qed

theorem addappid_keyless_keeps_key_witness:
  "finditer addappid_match 0 example_directives
     = [(''1'', Some ''aa''), (''1'', None), (''1'', Some ''bb''), (''1'', None), (''2'', None)]
   \<and> fst (parse_content (\<lambda>f. True) ''/w'' example_directives) = [(''1'', ''bb'')]
   \<and> map_of (fst (parse_content (\<lambda>f. True) ''/w'' example_directives)) ''1'' = Some ''bb''
   \<and> map_of (fst (parse_content (\<lambda>f. True) ''/w'' example_directives)) ''2'' = None"
proof -
  let ?xs = "[('''', ''1'', Some (''0'', ''aa'')),
              ([CHR 0x0A], ''1'', None),
              ([CHR 0x0A] @ ''setManifestid(1,'' @ [CHR 0x22] @ ''22'' @ [CHR 0x22] @ '')'' @ [CHR 0x0A],
               ''1'', Some (''1'', ''bb'')),
              ('' '', ''1'', None),
              ('' '', ''2'', None)]"
  have t: "example_directives = write_text ?xs [CHR 0x0A]"
    by (simp add: example_directives_def write_addappid_def)
  have wf: "list_all well_formed ?xs"
    by (simp add: well_formed_def is_digit_def is_hexlower_def)
  have tl: "no_addappid [CHR 0x0A]"
    by simp
  from addappid_keyless_keeps_key [OF wf tl, of "\<lambda>f. True" "''/w''" "''1''" "[]" "''1''" "[]" "[]" "''''"]
  have scan: "finditer addappid_match 0 example_directives
     = [(''1'', Some ''aa''), (''1'', None), (''1'', Some ''bb''), (''1'', None), (''2'', None)]"
    unfolding t [symmetric] by (simp add: directive_of_def)
  then have "fst (parse_content (\<lambda>f. True) ''/w'' example_directives) = [(''1'', ''bb'')]"
    by (simp add: parse_content_def)
  with scan show ?thesis
    by simp
qed

subsection \<open>Container round trip\<close>

lemma le16_value:
  assumes "n \<le> 65535"
  shows "unat (le16 n ! 0) + 256 * unat (le16 n ! 1) = n"
proof -
  have "n div 256 < 256" using assms by simp
  then have "unat (of_nat (n div 256) :: byte) = n div 256"
    by (simp add: unat_of_nat)
  moreover have "unat (of_nat n :: byte) = n mod 256"
    by (simp add: unat_of_nat)
  ultimately show ?thesis by (simp add: le16_def)
qed

lemma zlib_store_roundtrip:
  assumes "length d \<le> 65535"
  shows "zlib_decompress (zlib_store d) = Inr d"
proof -
  let ?n = "length d"
  let ?bs = "le16 ?n @ le16 (65535 - ?n) @ d @ be32 (adler32 d)"
  have l2: "length (le16 k) = 2" for k by (simp add: le16_def)
  have len: "unat (?bs ! 0) + 256 * unat (?bs ! 1) = ?n"
    using le16_value [OF assms] by (simp add: le16_def)
  have nlen: "unat (?bs ! 2) + 256 * unat (?bs ! 3) = 65535 - ?n"
    using le16_value [of "65535 - ?n"] by (simp add: le16_def)
  have body: "drop 4 ?bs = d @ be32 (adler32 d)"
    by (simp add: le16_def)
  have "inflate_blocks (0x01 # ?bs) = Inr (d, be32 (adler32 d))"
    using assms len nlen body by (simp add: l2 Let_def)
  moreover have "zlib_header_ok 0x78 0x01"
    by (simp add: zlib_header_ok_def)
  moreover have "length (be32 k) = 4" for k by (simp add: be32_def)
  ultimately show ?thesis
    by (simp add: zlib_decompress_def zlib_store_def)
qed

lemma zlib_bad_header: "zlib_decompress (0 # 0 # bs) = Inl ZlibError"
  by (simp add: zlib_decompress_def zlib_header_ok_def)

lemma st_decode_container:
  assumes "is_u32 raw" "is_u32 verify" "is_u32 (int (length stream))"
  shows "st_decode decompress decode (st_container raw verify stream @ junk) =
           (case decompress stream of
              Inl e \<Rightarrow> Inl e
            | Inr decompressed_data \<Rightarrow> decode (drop 512 decompressed_data))"
proof -
  let ?payload = "map (\<lambda>b. b XOR st_key raw) stream"
  have h: "st_header (pack_III raw (int (length stream)) verify @ ?payload @ junk) =
             Inr ((raw XOR 0xFFFEA4C8) AND 0xFF, int (length stream), verify)"
    by (rule st_header_pack [OF assms(1) assms(3) assms(2)])
  have l: "length (pack_III raw (int (length stream)) verify) = 12"
    by (simp add: pack_III_def length_pack_I)
  have d: "take (length stream) (drop 12 (pack_III raw (int (length stream)) verify @ ?payload @ junk))
             = ?payload"
    using l by simp
  have x: "map (\<lambda>b. b XOR word_of_int ((raw XOR 0xFFFEA4C8) AND 0xFF)) ?payload = stream"
    by (simp add: st_key_def comp_def xor.assoc map_idI)
  show ?thesis
    unfolding st_container_def append_assoc st_decode_def h
    by (simp only: sum.case prod.case Let_def nat_int d x)
qed

text \<open>
  C4 (as amended). A container whose payload is the XOR-obfuscated compression of 512
  padding bytes followed by the encoded text decodes to the same keys and the same
  manifests as the text parsed directly: the padding is inside the compressed stream,
  where the decoder drops the first 512 bytes of the decompressed data. The compressor and
  the encoder are any that the decoder's \<open>decompress\<close> and \<open>decode\<close> invert on this
  input, and the payload size fits the header's 32-bit field.
\<close>

theorem st_roundtrip:
  assumes "is_u32 raw" "is_u32 verify" "length pad = 512"
    and "is_u32 (int (length (compress (pad @ encode luatext))))"
    and "decompress (compress (pad @ encode luatext)) = Inr (pad @ encode luatext)"
    and "decode (encode luatext) = Inr luatext"
  shows "get_data_local decompress decode found work_dir
           (StFile (st_container raw verify (compress (pad @ encode luatext))))
         = get_data_local decompress decode found work_dir (LuaFile luatext)"
proof -
  have "st_decode decompress decode (st_container raw verify (compress (pad @ encode luatext)) @ [])
          = decode (encode luatext)"
    unfolding st_decode_container [OF assms(1) assms(2) assms(4)]
    using assms(3) by (simp add: assms(5))
  then show ?thesis
    by (simp add: get_data_local_def assms(6))
qed

lemma length_zlib_store: "length (zlib_store d) = length d + 11"
  by (simp add: zlib_store_def le16_def be32_def)


lemma unat_of_char: "unat (of_char c :: byte) = of_char c"
proof -
  have "(of_char c :: byte) = of_nat (of_char c)"
    by (simp only: of_nat_of_char)
  moreover have "(of_char c :: nat) < 256"
    by (rule nat_of_char_less_256)
  ultimately show ?thesis
    by (simp add: unat_of_nat)
qed

lemma ascii_roundtrip:
  assumes "list_all (\<lambda>c. (of_char c :: nat) < 128) s"
  shows "utf8_decode_ascii (utf8_encode_ascii s) = Inr s"
proof -
  have "(of_char c :: byte) < 0x80" if "(of_char c :: nat) < 128" for c
    using that by (simp add: word_less_nat_alt unat_of_char)
  then have "list_all (\<lambda>b. b < 0x80) (utf8_encode_ascii s)"
    using assms by (simp add: utf8_encode_ascii_def list_all_iff)
  moreover have "map (\<lambda>b. char_of (unat b)) (utf8_encode_ascii s) = s"
    by (simp add: utf8_encode_ascii_def comp_def unat_of_char map_idI)
  ultimately show ?thesis
    by (simp add: utf8_decode_ascii_def)
qed

lemma parse_example:
  "get_data_local decompress decode (\<lambda>f. True) ''/w'' (LuaFile example_text)
     = Inr ([(''1'', ''ab'')], [''/w/1_22.manifest''])"
  by (simp add: get_data_local_def parse_content_def example_text_def
      addappid_match_def addappid_key_group_def setmanifestid_match_def lit_def many1_def
      is_digit_def is_space_def is_hexlower_def setmanifestid_loop_def manifest_filename_def)

theorem st_roundtrip_witness:
  "get_data_local zlib_decompress utf8_decode_ascii (\<lambda>f. True) ''/w''
     (StFile (st_container 0x12345678 0
        (zlib_store (replicate 512 0 @ utf8_encode_ascii example_text))))
   = Inr ([(''1'', ''ab'')], [''/w/1_22.manifest''])"
proof -
  let ?plain = "replicate 512 0 @ utf8_encode_ascii example_text"
  have len: "length ?plain = 512 + length example_text"
    by (simp add: utf8_encode_ascii_def)
  have l: "length example_text = 39"
    by (simp add: example_text_def)
  have a: "is_u32 0x12345678" and b: "is_u32 0"
    by (simp_all add: is_u32_def)
  have c: "length (replicate 512 (0 :: byte)) = 512" by simp
  have d: "is_u32 (int (length (zlib_store ?plain)))"
    unfolding length_zlib_store len l by (simp add: is_u32_def)
  have e: "zlib_decompress (zlib_store ?plain) = Inr ?plain"
    by (rule zlib_store_roundtrip) (simp add: utf8_encode_ascii_def l)
  have f: "utf8_decode_ascii (utf8_encode_ascii example_text) = Inr example_text"
    by (rule ascii_roundtrip) (simp add: example_text_def)
  show ?thesis
    using st_roundtrip [where compress = zlib_store and encode = utf8_encode_ascii
        and pad = "replicate 512 0" and luatext = example_text and found = "\<lambda>f. True"
        and work_dir = "''/w''" and decompress = zlib_decompress
        and decode = utf8_decode_ascii, OF a b c d e f]
    by (simp only: parse_example)
qed

lemma zlib_zero_padding: "zlib_decompress (replicate 512 0 @ bs) = Inl ZlibError"
proof -
  have "replicate 512 (0 :: byte) = 0 # 0 # replicate 510 0"
    by (simp add: numeral_eq_Suc)
  then show ?thesis
    by (simp add: zlib_bad_header)
qed

text \<open>
  With the 512 padding bytes put in front of the compressed text, as the
  specification's example puts it,
  the payload does not begin with a zlib header and decompression raises.
\<close>

theorem st_padding_outside_counterexample:
  "get_data_local zlib_decompress utf8_decode_ascii (\<lambda>f. True) ''/w''
     (StFile (st_container 0x12345678 0
        (replicate 512 0 @ zlib_store (utf8_encode_ascii example_text))))
     = Inl ZlibError
   \<and> get_data_local zlib_decompress utf8_decode_ascii (\<lambda>f. True) ''/w'' (LuaFile example_text)
     = Inr ([(''1'', ''ab'')], [''/w/1_22.manifest''])"
proof -
  let ?stream = "replicate 512 0 @ zlib_store (utf8_encode_ascii example_text)"
  have l: "length example_text = 39"
    by (simp add: example_text_def)
  have a: "is_u32 0x12345678" and b: "is_u32 0"
    by (simp_all add: is_u32_def)
  have d: "is_u32 (int (length ?stream))"
    by (simp add: length_zlib_store utf8_encode_ascii_def l is_u32_def)
  have "st_decode zlib_decompress utf8_decode_ascii (st_container 0x12345678 0 ?stream @ [])
          = Inl ZlibError"
    unfolding st_decode_container [OF a b d] by (simp only: zlib_zero_padding sum.case)
  then show ?thesis
    by (simp add: get_data_local_def parse_example [unfolded get_data_local_def, simplified])
qed

subsection \<open>Lookup in the file index\<close>

lemma scan_manifests_step:
  "scan_manifests it path (m # ms) (ref, cache, probed) =
     (case provides it path m of
        None \<Rightarrow> scan_manifests it path ms (ref, cache, probed @ [m])
      | Some r \<Rightarrow> scan_manifests it path ms (Some r, cache(path \<mapsto> Some r), probed @ [m]))"
  by (simp add: provides_def split: list.splits)

lemma last_match_Cons:
  "last_match it (m # ms) path =
     (case last_match it ms path of Some r \<Rightarrow> Some r | None \<Rightarrow> provides it path m)"
  by (cases "provides it path m"; cases "rev (List.map_filter (provides it path) ms)")
     (simp_all add: last_match_def map_filter_simps)

lemma scan_manifests_result:
  "scan_manifests it path ms (ref, cache, probed) =
     (case last_match it ms path of
        None \<Rightarrow> (ref, cache, probed @ ms)
      | Some r \<Rightarrow> (Some r, cache(path \<mapsto> Some r), probed @ ms))"
proof (induction ms arbitrary: ref cache probed)
  case Nil
  show ?case by (simp add: last_match_def map_filter_simps)
next
  case (Cons m ms)
  show ?case
    unfolding scan_manifests_step last_match_Cons
    by (cases "provides it path m"; cases "last_match it ms path") (simp_all add: Cons.IH)
qed

text \<open>
  C2 (as amended). For a path that has no pair in the cache, lookup scans all the manifests
  in the order supplied and returns the pair from the last manifest that contains the path
  (\<open>None\<close> when none does), and records that result in the cache: when two or more
  manifests provide the same path, the latest in the supplied order wins.
\<close>

theorem locate_last_match:
  assumes "path_cache idx path = None \<or> path_cache idx path = Some None"
  shows "locate_file_mapping it idx path =
           (last_match it (manifests idx) path,
            idx\<lparr>path_cache := (path_cache idx)(path \<mapsto> last_match it (manifests idx) path)\<rparr>,
            manifests idx)"
proof -
  have "(case path_cache idx path of None \<Rightarrow> None | Some r \<Rightarrow> r) = None"
    using assms by auto
  then show ?thesis
    by (cases "last_match it (manifests idx) path")
       (simp_all add: locate_file_mapping_def scan_manifests_result)
qed

theorem locate_last_match_witness:
  "locate_file_mapping (\<lambda>m p. if p = ''a.txt'' then [m * 10] else []) (new_index [1, 2 :: nat]) ''a.txt''
     = (Some (2, 20 :: nat), \<lparr>manifests = [1, 2], path_cache = [''a.txt'' \<mapsto> Some (2, 20)]\<rparr>, [1, 2])"
proof -
  have "last_match (\<lambda>m p. if p = ''a.txt'' then [m * 10] else []) [1, 2 :: nat] ''a.txt'' = Some (2, 20 :: nat)"
    by (simp add: last_match_def provides_def map_filter_simps)
  then show ?thesis
    using locate_last_match [of "new_index [1, 2 :: nat]" "''a.txt''"
        "\<lambda>m p. if p = ''a.txt'' then [m * 10 :: nat] else []"]
    by (simp add: new_index_def)
qed

text \<open>
  Two manifests provide \<open>a.txt\<close>: lookup returns the pair of the second, not of the first.
\<close>

theorem locate_first_match_counterexample:
  "fst (locate_file_mapping (\<lambda>m p. if p = ''a.txt'' then [m * 10] else []) (new_index [1, 2 :: nat]) ''a.txt'')
     = Some (2, 20 :: nat)
   \<and> first_match (\<lambda>m p. if p = ''a.txt'' then [m * 10] else []) [1, 2 :: nat] ''a.txt''
     = Some (1, 10 :: nat)"
  by (simp add: locate_file_mapping_def new_index_def first_match_def provides_def map_filter_simps)

text \<open>
  C6, at a path no manifest provides. The first lookup scans both manifests and leaves an
  entry holding \<open>None\<close> for the path; the second lookup returns \<open>None\<close> again and scans
  both manifests again.
\<close>

theorem locate_absent_rescans:
  "(let it = (\<lambda>m p. if p = ''a.txt'' then [m * 10] else []);
        (r1, idx1, probed1) = locate_file_mapping it (new_index [1, 2 :: nat]) ''x'';
        (r2, idx2, probed2) = locate_file_mapping it idx1 ''x''
    in r1 = None \<and> path_cache idx1 ''x'' = Some None \<and> probed1 = [1, 2]
       \<and> r2 = (None :: (nat \<times> nat) option) \<and> probed2 = [1, 2])"
  by (simp add: locate_file_mapping_def new_index_def)

text \<open>
  X3. A path whose cache entry holds a pair is answered with that pair, without a scan and
  without a change to the index; and a lookup that finds a path leaves such an entry.
\<close>

theorem locate_found_is_memoized:
  "(path_cache idx path = Some (Some r) \<longrightarrow> locate_file_mapping it idx path = (Some r, idx, []))
   \<and> (fst (locate_file_mapping it idx path) = Some r
        \<longrightarrow> path_cache (fst (snd (locate_file_mapping it idx path))) path = Some (Some r))"
proof -
  have a: "path_cache idx path = Some (Some r) \<longrightarrow> locate_file_mapping it idx path = (Some r, idx, [])"
    by (simp add: locate_file_mapping_def)
  have b: "fst (locate_file_mapping it idx path) = Some r
        \<longrightarrow> path_cache (fst (snd (locate_file_mapping it idx path))) path = Some (Some r)"
  proof (cases "case path_cache idx path of None \<Rightarrow> None | Some x \<Rightarrow> x")
    case None
    then show ?thesis
      by (cases "last_match it (manifests idx) path")
         (simp_all add: locate_file_mapping_def scan_manifests_result)
  next
    case (Some x)
    then show ?thesis
      by (auto simp add: locate_file_mapping_def split: option.splits)
  qed
  from a b show ?thesis by blast
qed

theorem locate_found_is_memoized_witness:
  "(let it = (\<lambda>m p. if p = ''a.txt'' then [m * 10] else []);
        (r1, idx1, probed1) = locate_file_mapping it (new_index [1, 2 :: nat]) ''a.txt'';
        (r2, idx2, probed2) = locate_file_mapping it idx1 ''a.txt''
    in r1 = Some (2, 20 :: nat) \<and> probed1 = [1, 2] \<and> r2 = Some (2, 20) \<and> probed2 = [] \<and> idx2 = idx1)"
proof -
  let ?it = "\<lambda>m p. if p = ''a.txt'' then [m * 10 :: nat] else []"
  let ?idx1 = "\<lparr>manifests = [1, 2 :: nat], path_cache = [''a.txt'' \<mapsto> Some (2, 20 :: nat)]\<rparr>"
  have first: "locate_file_mapping ?it (new_index [1, 2 :: nat]) ''a.txt'' = (Some (2, 20), ?idx1, [1, 2])"
    by (simp add: locate_file_mapping_def new_index_def)
  have "path_cache ?idx1 ''a.txt'' = Some (Some (2, 20))"
    by simp
  with locate_found_is_memoized [of ?idx1 "''a.txt''" "(2, 20)" ?it]
  have "locate_file_mapping ?it ?idx1 ''a.txt'' = (Some (2, 20), ?idx1, [])"
    by blast
  with first show ?thesis
    by (simp add: Let_def)
qed

subsection \<open>The target path\<close>

text \<open>
  X2. The path \<open>sanitizerelpath\<close> returns is relative: it never begins with a slash.
\<close>

theorem sanitizerelpath_relative: "\<not> startswith (sanitizerelpath p) ''/''"
proof -
  have "\<not> startswith (dropWhile (\<lambda>c. c = CHR ''/'') s) ''/''" for s
    by (induction s) (simp_all add: startswith_def)
  then show ?thesis by (simp add: sanitizerelpath_def)
qed

text \<open>
  C1, at the entry path \<open>../../etc/passwd\<close> with target \<open>out\<close> in \<open>/home/u\<close>: the
  components \<open>..\<close> pass through \<open>sanitizerelpath\<close>, and the file opened is
  \<open>/home/etc/passwd\<close>, outside \<open>/home/u/out\<close>.
\<close>

theorem download_to_escapes_root:
  "download_filepath ''/home/u'' ''../../etc/passwd'' ''out'' False = ''/home/etc/passwd''
   \<and> abspath ''/home/u'' ''out'' = ''/home/u/out''
   \<and> \<not> inside_root ''/home/u/out'' ''/home/etc/passwd''"
  by (simp add: download_filepath_def sanitizerelpath_def as_posix_def startswith_def
      path_join_def abspath_def normpath_def normpath_step_def inside_root_def path_parts_def)

subsection \<open>Verifying a complete file\<close>

lemma chunk_loop_all_match:
  assumes "chunks_laid_out start cs"
    and "list_all (chunk_matches H (data (fp st))) cs"
    and "pos (fp st) = min start (length (data (fp st)))"
  shows "chunk_loop H get True cs st =
           (None, st\<lparr>fp := (fp st)\<lparr>pos := min (start + sum_list (map cb_original cs))
                                              (length (data (fp st)))\<rparr>,
                      progress := fold pbar_update_opt (map cb_original cs) (progress st)\<rparr>)"
  using assms
proof (induction cs arbitrary: st start)
  case Nil
  from Nil.prems(3) [symmetric] show ?case by simp
next
  case (Cons c cs)
  let ?L = "length (data (fp st))"
  let ?fp1 = "(fp st)\<lparr>pos := min (start + cb_original c) ?L\<rparr>"
  let ?st1 = "st\<lparr>fp := ?fp1, progress := pbar_update_opt (cb_original c) (progress st)\<rparr>"
  from Cons.prems have off: "offset c = start"
    and lay: "chunks_laid_out (start + cb_original c) cs"
    and m: "chunk_matches H (data (fp st)) c"
    and ms: "list_all (chunk_matches H (data (fp st))) cs"
    and p: "pos (fp st) = min start ?L"
    by simp_all
  have d: "drop (pos (fp st)) (data (fp st)) = drop start (data (fp st))"
    unfolding p by (cases "start \<le> ?L") (simp_all add: min_def)
  have n: "pos (fp st) + length (take (cb_original c) (drop start (data (fp st))))
             = min (start + cb_original c) ?L"
    unfolding p by (auto simp add: min_def)
  have rd: "fp_read (cb_original c) (fp st) = (take (cb_original c) (drop start (data (fp st))), ?fp1)"
    unfolding fp_read_def Let_def d n by simp
  have hit: "H (take (cb_original c) (drop start (data (fp st)))) = sha c"
    using m off by (simp add: chunk_matches_def)
  have step: "chunk_loop H get True (c # cs) st = chunk_loop H get True cs ?st1"
    by (simp add: rd hit)
  have "chunk_loop H get True cs ?st1 =
          (None, ?st1\<lparr>fp := (fp ?st1)\<lparr>pos := min (start + cb_original c + sum_list (map cb_original cs))
                                                  (length (data (fp ?st1)))\<rparr>,
                      progress := fold pbar_update_opt (map cb_original cs) (progress ?st1)\<rparr>)"
    by (rule Cons.IH) (use lay ms in simp_all)
  then show ?case
    unfolding step by (simp add: add.assoc)
qed

lemma pbar_updates_total:
  assumes "\<not> pbar_disable p" "\<not> pbar_cancelled p"
  shows "fold pbar_update_opt ks (Some p) = Some (p\<lparr>pbar_n := pbar_n p + sum_list ks\<rparr>)"
  using assms
  by (induction ks arbitrary: p) (simp_all add: pbar_update_opt_def pbar_update_def add.assoc)

lemma chunk_loop_complete_file:
  assumes lay: "chunks_laid_out 0 (chunks self)"
    and complete: "file_complete H self bs"
  shows "chunk_loop H get True (chunks self)
           \<lparr>fp = \<lparr>data = bs, pos = 0\<rparr>, progress = pbar, fetched = []\<rparr> =
         (None, \<lparr>fp = \<lparr>data = bs,
                        pos = min (sum_list (map cb_original (chunks self))) (file_size self)\<rparr>,
                 progress = fold pbar_update_opt (map cb_original (chunks self)) pbar,
                 fetched = []\<rparr>)"
proof -
  let ?st = "\<lparr>fp = \<lparr>data = bs, pos = 0\<rparr>, progress = pbar, fetched = []\<rparr>"
  from complete have len: "length bs = file_size self"
    and ms: "list_all (chunk_matches H bs) (chunks self)"
    by (simp_all add: file_complete_def)
  have "chunk_loop H get True (chunks self) ?st =
          (None, ?st\<lparr>fp := (fp ?st)\<lparr>pos := min (0 + sum_list (map cb_original (chunks self)))
                                                (length (data (fp ?st)))\<rparr>,
                      progress := fold pbar_update_opt (map cb_original (chunks self)) (progress ?st)\<rparr>)"
    by (rule chunk_loop_all_match) (use lay ms in simp_all)
  then show ?thesis
    by (simp add: len)
qed

text \<open>
  C3 (as amended). When the chunks of the entry are listed one after the other from
  offset 0, each where the one listed before it ends, and the target exists, has the size
  of the entry, and holds at each chunk's offset bytes that hash to the chunk's content
  hash, \<open>download_to\<close> with \<open>verify\<close> true raises nothing, calls \<open>get_chunk\<close> not
  once, leaves every file as it was, and has updated the progress bar by the length of
  each chunk in turn.
\<close>

theorem download_to_idempotent:
  assumes ex: "fs (download_filepath cwd (filename self) target no_make_dirs) = Some bs"
    and lay: "chunks_laid_out 0 (chunks self)"
    and complete: "file_complete H self bs"
  shows "download_to H get cwd fs self target no_make_dirs pbar True =
           \<lparr>raised = None, files = fs,
            progress_after = fold pbar_update_opt (map cb_original (chunks self)) pbar,
            get_chunk_calls = []\<rparr>"
proof -
  let ?filepath = "download_filepath cwd (filename self) target no_make_dirs"
  from complete have len: "length bs = file_size self"
    by (simp add: file_complete_def)
  have same: "fs(?filepath \<mapsto> bs) = fs"
    using ex by (rule map_upd_triv)
  show ?thesis
    unfolding download_to_def
    by (simp add: ex len fp_seek_def chunk_loop_complete_file [OF lay complete] same Let_def)
qed

theorem download_to_idempotent_witness:
  "download_to (\<lambda>bs. be32 (adler32 bs)) (\<lambda>h. Inl SteamError) ''/home/u''
     [''/home/u/out/a/b.bin'' \<mapsto> [1, 2, 3, 4, 5]]
     \<lparr>filename = ''a/b.bin'', file_size = 5,
      chunks = [\<lparr>sha = be32 (adler32 [1, 2, 3]), offset = 0, cb_original = 3\<rparr>,
                \<lparr>sha = be32 (adler32 [4, 5]), offset = 3, cb_original = 2\<rparr>],
      is_file = True\<rparr>
     ''out'' False (Some \<lparr>pbar_n = 0, pbar_disable = False, pbar_cancelled = False\<rparr>) True
   = \<lparr>raised = None, files = [''/home/u/out/a/b.bin'' \<mapsto> [1, 2, 3, 4, 5]],
      progress_after = Some \<lparr>pbar_n = 5, pbar_disable = False, pbar_cancelled = False\<rparr>,
      get_chunk_calls = []\<rparr>"
proof -
  let ?self = "\<lparr>filename = ''a/b.bin'', file_size = 5,
      chunks = [\<lparr>sha = be32 (adler32 [1, 2, 3]), offset = 0, cb_original = 3\<rparr>,
                \<lparr>sha = be32 (adler32 [4, 5]), offset = 3, cb_original = 2\<rparr>],
      is_file = True\<rparr>"
  have p: "download_filepath ''/home/u'' (filename ?self) ''out'' False = ''/home/u/out/a/b.bin''"
    by (simp add: download_filepath_def sanitizerelpath_def as_posix_def startswith_def
      path_join_def abspath_def normpath_def normpath_step_def)
  have ex: "[''/home/u/out/a/b.bin'' \<mapsto> [1, 2, 3, 4, 5 :: byte]]
              (download_filepath ''/home/u'' (filename ?self) ''out'' False) = Some [1, 2, 3, 4, 5]"
    unfolding p by simp
  have lay: "chunks_laid_out 0 (chunks ?self)"
    by simp
  have c: "file_complete (\<lambda>bs. be32 (adler32 bs)) ?self [1, 2, 3, 4, 5]"
    by (simp add: file_complete_def chunk_matches_def)
  show ?thesis
    using download_to_idempotent [where fs = "[''/home/u/out/a/b.bin'' \<mapsto> [1, 2, 3, 4, 5]]"
        and cwd = "''/home/u''" and self = ?self and target = "''out''" and no_make_dirs = False
        and H = "\<lambda>bs. be32 (adler32 bs)" and get = "\<lambda>h. Inl SteamError"
        and pbar = "Some \<lparr>pbar_n = 0, pbar_disable = False, pbar_cancelled = False\<rparr>",
        OF ex lay c]
    by (simp add: pbar_update_opt_def pbar_update_def)
qed

text \<open>
  Without the layout the property fails. The target holds the five bytes 1 to 5, has the
  size of the entry, and at each chunk's offset the bytes hash to the chunk's content hash.
  When the two chunks are listed with the later offset first, the loop reads the first two
  bytes of the file for the chunk at offset 3 and, the cursor then being at the end, nothing
  for the chunk at offset 0: both chunks are fetched. When the chunks are listed in the
  order of their offsets and the second starts before the first ends, the loop reads for the
  second from where the first ended: the second chunk is fetched. The loop reads at one
  cursor, which it moves to a chunk's offset only before writing.
\<close>

theorem download_to_layout_counterexample:
  "file_complete example_hash entry_out_of_order [1, 2, 3, 4, 5]
   \<and> download_to example_hash example_get_chunk ''/home/u''
        [''/home/u/out/a/b.bin'' \<mapsto> [1, 2, 3, 4, 5]] entry_out_of_order ''out'' False None True
      = \<lparr>raised = None, files = [''/home/u/out/a/b.bin'' \<mapsto> [1, 2, 3, 4, 5]],
         progress_after = None,
         get_chunk_calls = [example_hash [4, 5], example_hash [1, 2, 3]]\<rparr>
   \<and> file_complete example_hash entry_overlapping [1, 2, 3, 4, 5]
   \<and> download_to example_hash example_get_chunk ''/home/u''
        [''/home/u/out/a/b.bin'' \<mapsto> [1, 2, 3, 4, 5]] entry_overlapping ''out'' False None True
      = \<lparr>raised = None, files = [''/home/u/out/a/b.bin'' \<mapsto> [1, 2, 3, 4, 5]],
         progress_after = None,
         get_chunk_calls = [example_hash [3, 4]]\<rparr>"
proof -
  have p: "download_filepath ''/home/u'' ''a/b.bin'' ''out'' False = ''/home/u/out/a/b.bin''"
    by (simp add: download_filepath_def sanitizerelpath_def as_posix_def startswith_def
      path_join_def abspath_def normpath_def normpath_step_def)
  have h: "example_hash [1, 2, 3] = [0, 13, 0, 7]" "example_hash [4, 5] = [0, 15, 0, 10]"
    "example_hash [3, 4] = [0, 12, 0, 8]" "example_hash [1, 2] = [0, 6, 0, 4]"
    "example_hash [] = [0, 0, 0, 1]"
    by (simp_all add: example_hash_def be32_def adler32_def)
  have c1: "file_complete example_hash entry_out_of_order [1, 2, 3, 4, 5]"
    by (simp add: file_complete_def chunk_matches_def entry_out_of_order_def h)
  have c2: "file_complete example_hash entry_overlapping [1, 2, 3, 4, 5]"
    by (simp add: file_complete_def chunk_matches_def entry_overlapping_def h)
  have r1: "download_to example_hash example_get_chunk ''/home/u''
        [''/home/u/out/a/b.bin'' \<mapsto> [1, 2, 3, 4, 5]] entry_out_of_order ''out'' False None True
      = \<lparr>raised = None, files = [''/home/u/out/a/b.bin'' \<mapsto> [1, 2, 3, 4, 5]],
         progress_after = None,
         get_chunk_calls = [example_hash [4, 5], example_hash [1, 2, 3]]\<rparr>"
    by (simp add: download_to_def entry_out_of_order_def p h example_get_chunk_def
        fp_read_def fp_seek_def fp_write_def pbar_update_opt_def Let_def)
  have r2: "download_to example_hash example_get_chunk ''/home/u''
        [''/home/u/out/a/b.bin'' \<mapsto> [1, 2, 3, 4, 5]] entry_overlapping ''out'' False None True
      = \<lparr>raised = None, files = [''/home/u/out/a/b.bin'' \<mapsto> [1, 2, 3, 4, 5]],
         progress_after = None,
         get_chunk_calls = [example_hash [3, 4]]\<rparr>"
    by (simp add: download_to_def entry_overlapping_def p h example_get_chunk_def
        fp_read_def fp_seek_def fp_write_def pbar_update_opt_def Let_def)
  from c1 r1 c2 r2 show ?thesis
    by simp
qed

subsection \<open>Downloading, then verifying\<close>

lemma chunk_loop_writes:
  assumes "list_all (chunk_served H get) cs"
    and "pos (fp st) + sum_list (map cb_original cs) \<le> length (data (fp st))"
  shows "chunk_loop H get False cs st =
           (None, st\<lparr>fp := \<lparr>data = take (pos (fp st)) (data (fp st))
                                @ concat (map (served_data get) cs)
                                @ drop (pos (fp st) + sum_list (map cb_original cs)) (data (fp st)),
                             pos = pos (fp st) + sum_list (map cb_original cs)\<rparr>,
                      progress := fold pbar_update_opt (map cb_original cs) (progress st),
                      fetched := fetched st @ map sha cs\<rparr>)"
  using assms
proof (induction cs arbitrary: st)
  case Nil
  show ?case by simp
next
  case (Cons c cs)
  from Cons.prems(1) have sc: "chunk_served H get c"
    and rest: "list_all (chunk_served H get) cs"
    by simp_all
  from sc obtain d where g: "get (sha c) = Inr d" and ld: "length d = cb_original c"
    by (cases "get (sha c)") (simp_all add: chunk_served_def)
  define P where "P = pos (fp st)"
  define D where "D = data (fp st)"
  define S where "S = sum_list (map cb_original cs)"
  define D1 where "D1 = take P D @ d @ drop (P + length d) D"
  define X where "X = concat (map (served_data get) cs)"
  have len: "P + (length d + S) \<le> length D"
    using Cons.prems(2) by (simp add: P_def D_def S_def ld)
  have w: "fp_write d (fp st) = \<lparr>data = D1, pos = P + length d\<rparr>"
    using len by (simp add: fp_write_def D1_def P_def D_def)
  let ?st1 = "st\<lparr>fp := \<lparr>data = D1, pos = P + length d\<rparr>,
                   progress := pbar_update_opt (cb_original c) (progress st),
                   fetched := fetched st @ [sha c]\<rparr>"
  have step: "chunk_loop H get False (c # cs) st = chunk_loop H get False cs ?st1"
    by (simp add: g w)
  have l1: "length D1 = length D"
    using len by (simp add: D1_def)
  have "chunk_loop H get False cs ?st1 =
           (None, ?st1\<lparr>fp := \<lparr>data = take (pos (fp ?st1)) (data (fp ?st1))
                                @ concat (map (served_data get) cs)
                                @ drop (pos (fp ?st1) + sum_list (map cb_original cs)) (data (fp ?st1)),
                             pos = pos (fp ?st1) + sum_list (map cb_original cs)\<rparr>,
                      progress := fold pbar_update_opt (map cb_original cs) (progress ?st1),
                      fetched := fetched ?st1 @ map sha cs\<rparr>)"
    by (rule Cons.IH [OF rest]) (use len l1 in \<open>simp add: S_def\<close>)
  then have ih: "chunk_loop H get False cs ?st1 =
           (None, st\<lparr>fp := \<lparr>data = take (P + length d) D1 @ X @ drop (P + length d + S) D1,
                             pos = P + length d + S\<rparr>,
                      progress := fold pbar_update_opt (map cb_original cs)
                                    (pbar_update_opt (cb_original c) (progress st)),
                      fetched := fetched st @ sha c # map sha cs\<rparr>)"
    by (simp add: X_def S_def)
  have t: "take (P + length d) D1 = take P D @ d"
    using len by (simp add: D1_def)
  have dr: "drop (P + length d + S) D1 = drop (P + length d + S) D"
    using len by (simp add: D1_def add.commute add.left_commute)
  have x: "concat (map (served_data get) (c # cs)) = d @ X"
    by (simp add: X_def served_data_def g)
  have s: "sum_list (map cb_original (c # cs)) = length d + S"
    by (simp add: S_def ld)
  show ?case
    unfolding step ih t dr x s P_def [symmetric] D_def [symmetric]
    by (simp add: ld add.assoc)
qed

lemma served_chunks_match:
  assumes "list_all (chunk_served H get) cs" "chunks_laid_out (length pre) cs"
  shows "list_all (chunk_matches H (pre @ concat (map (served_data get) cs) @ post)) cs"
  using assms
proof (induction cs arbitrary: pre)
  case Nil
  show ?case by simp
next
  case (Cons c cs)
  from Cons.prems(1) have sc: "chunk_served H get c"
    and rest: "list_all (chunk_served H get) cs"
    by simp_all
  from sc obtain d where g: "get (sha c) = Inr d" and ld: "length d = cb_original c"
    and hd: "H d = sha c"
    by (cases "get (sha c)") (simp_all add: chunk_served_def)
  from Cons.prems(2) have off: "offset c = length pre"
    and lay: "chunks_laid_out (length (pre @ d)) cs"
    by (simp_all add: ld)
  have "list_all (chunk_matches H ((pre @ d) @ concat (map (served_data get) cs) @ post)) cs"
    by (rule Cons.IH [OF rest lay])
  moreover have "chunk_matches H (pre @ d @ concat (map (served_data get) cs) @ post) c"
    by (simp add: chunk_matches_def off ld hd)
  moreover have "served_data get c = d"
    by (simp add: served_data_def g)
  ultimately show ?case
    by simp
qed

lemma length_served:
  "list_all (chunk_served H get) cs \<Longrightarrow>
     length (concat (map (served_data get) cs)) = sum_list (map cb_original cs)"
  by (induction cs) (auto simp add: chunk_served_def served_data_def split: sum.splits)

lemma first_download_is_complete:
  assumes absent: "fs (download_filepath cwd (filename self) target no_make_dirs) = None"
    and lay: "chunks_laid_out 0 (chunks self)"
    and total: "file_size self = sum_list (map cb_original (chunks self))"
    and served: "list_all (chunk_served H get) (chunks self)"
  shows "download_to H get cwd fs self target no_make_dirs pbar verify =
           \<lparr>raised = None,
            files = fs(download_filepath cwd (filename self) target no_make_dirs
                         \<mapsto> concat (map (served_data get) (chunks self))),
            progress_after = fold pbar_update_opt (map cb_original (chunks self)) pbar,
            get_chunk_calls = map sha (chunks self)\<rparr>
         \<and> file_complete H self (concat (map (served_data get) (chunks self)))"
proof -
  let ?n = "file_size self"
  let ?st = "\<lparr>fp = \<lparr>data = replicate ?n 0, pos = 0\<rparr>, progress = pbar, fetched = []\<rparr>"
  have loop: "chunk_loop H get False (chunks self) ?st =
           (None, ?st\<lparr>fp := \<lparr>data = take (pos (fp ?st)) (data (fp ?st))
                                @ concat (map (served_data get) (chunks self))
                                @ drop (pos (fp ?st) + sum_list (map cb_original (chunks self))) (data (fp ?st)),
                             pos = pos (fp ?st) + sum_list (map cb_original (chunks self))\<rparr>,
                      progress := fold pbar_update_opt (map cb_original (chunks self)) (progress ?st),
                      fetched := fetched ?st @ map sha (chunks self)\<rparr>)"
    by (rule chunk_loop_writes [OF served]) (simp add: total)
  have run: "download_to H get cwd fs self target no_make_dirs pbar verify =
           \<lparr>raised = None,
            files = fs(download_filepath cwd (filename self) target no_make_dirs
                         \<mapsto> concat (map (served_data get) (chunks self))),
            progress_after = fold pbar_update_opt (map cb_original (chunks self)) pbar,
            get_chunk_calls = map sha (chunks self)\<rparr>"
  proof (cases "?n = 0")
    case True
    from loop show ?thesis
      unfolding download_to_def
      by (simp add: absent True fp_seek_def Let_def total [symmetric])
  next
    case False
    from loop show ?thesis
      unfolding download_to_def
      by (simp add: absent False fp_truncate_def fp_seek_def Let_def total [symmetric])
  qed
  have "list_all (chunk_matches H ([] @ concat (map (served_data get) (chunks self)) @ [])) (chunks self)"
    by (rule served_chunks_match [OF served]) (simp add: lay)
  then have "file_complete H self (concat (map (served_data get) (chunks self)))"
    by (simp add: file_complete_def total length_served [OF served])
  with run show ?thesis by simp
qed

text \<open>
  X1. A first \<open>download_to\<close> of an entry whose target does not exist, with every chunk
  served, followed by a second one with \<open>verify\<close> true on the files the first left:
  the second raises nothing, calls \<open>get_chunk\<close> not once and leaves the files as the
  first left them.
\<close>

theorem second_run_fetches_nothing:
  assumes absent: "fs (download_filepath cwd (filename self) target no_make_dirs) = None"
    and lay: "chunks_laid_out 0 (chunks self)"
    and total: "file_size self = sum_list (map cb_original (chunks self))"
    and served: "list_all (chunk_served H get) (chunks self)"
  shows "download_to H get cwd
           (files (download_to H get cwd fs self target no_make_dirs pbar verify))
           self target no_make_dirs pbar' True =
         \<lparr>raised = None,
          files = files (download_to H get cwd fs self target no_make_dirs pbar verify),
          progress_after = fold pbar_update_opt (map cb_original (chunks self)) pbar',
          get_chunk_calls = []\<rparr>"
proof -
  let ?p = "download_filepath cwd (filename self) target no_make_dirs"
  let ?bs = "concat (map (served_data get) (chunks self))"
  from first_download_is_complete [where fs = fs and cwd = cwd and self = self
      and target = target and no_make_dirs = no_make_dirs and H = H and get = get
      and pbar = pbar and verify = verify, OF absent lay total served]
  have f: "files (download_to H get cwd fs self target no_make_dirs pbar verify) = fs(?p \<mapsto> ?bs)"
    and c: "file_complete H self ?bs"
    by simp_all
  from c have len: "length ?bs = file_size self"
    by (simp add: file_complete_def)
  have "download_to H get cwd (fs(?p \<mapsto> ?bs)) self target no_make_dirs pbar' True =
         \<lparr>raised = None, files = fs(?p \<mapsto> ?bs),
          progress_after = fold pbar_update_opt (map cb_original (chunks self)) pbar',
          get_chunk_calls = []\<rparr>"
    unfolding download_to_def
    by (simp add: len fp_seek_def chunk_loop_complete_file [OF lay c] Let_def)
  then show ?thesis
    by (simp only: f)
qed

theorem second_run_fetches_nothing_witness:
  "download_to (\<lambda>bs. be32 (adler32 bs))
     (\<lambda>h. if h = be32 (adler32 [1, 2, 3]) then Inr [1, 2, 3]
           else if h = be32 (adler32 [4, 5]) then Inr [4, 5] else Inl SteamError)
     ''/home/u''
     (files (download_to (\<lambda>bs. be32 (adler32 bs))
        (\<lambda>h. if h = be32 (adler32 [1, 2, 3]) then Inr [1, 2, 3]
              else if h = be32 (adler32 [4, 5]) then Inr [4, 5] else Inl SteamError)
        ''/home/u'' Map.empty
        \<lparr>filename = ''a/b.bin'', file_size = 5,
         chunks = [\<lparr>sha = be32 (adler32 [1, 2, 3]), offset = 0, cb_original = 3\<rparr>,
                   \<lparr>sha = be32 (adler32 [4, 5]), offset = 3, cb_original = 2\<rparr>],
         is_file = True\<rparr>
        ''out'' False None True))
     \<lparr>filename = ''a/b.bin'', file_size = 5,
      chunks = [\<lparr>sha = be32 (adler32 [1, 2, 3]), offset = 0, cb_original = 3\<rparr>,
                \<lparr>sha = be32 (adler32 [4, 5]), offset = 3, cb_original = 2\<rparr>],
      is_file = True\<rparr>
     ''out'' False None True
   = \<lparr>raised = None, files = [''/home/u/out/a/b.bin'' \<mapsto> [1, 2, 3, 4, 5]],
      progress_after = None, get_chunk_calls = []\<rparr>"
proof -
  let ?H = "\<lambda>bs. be32 (adler32 bs)"
  let ?get = "\<lambda>h. if h = be32 (adler32 [1, 2, 3]) then Inr [1, 2, 3 :: byte]
           else if h = be32 (adler32 [4, 5]) then Inr [4, 5] else Inl SteamError"
  let ?self = "\<lparr>filename = ''a/b.bin'', file_size = 5,
      chunks = [\<lparr>sha = be32 (adler32 [1, 2, 3]), offset = 0, cb_original = 3\<rparr>,
                \<lparr>sha = be32 (adler32 [4, 5]), offset = 3, cb_original = 2\<rparr>],
      is_file = True\<rparr>"
  have a1: "be32 (adler32 [1, 2, 3]) = [0, 13, 0, 7]" and a2: "be32 (adler32 [4, 5]) = [0, 15, 0, 10]"
    by (simp_all add: be32_def adler32_def)
  have p: "download_filepath ''/home/u'' (filename ?self) ''out'' False = ''/home/u/out/a/b.bin''"
    by (simp add: download_filepath_def sanitizerelpath_def as_posix_def startswith_def
      path_join_def abspath_def normpath_def normpath_step_def)
  have p0: "download_filepath ''/home/u'' ''a/b.bin'' ''out'' False = ''/home/u/out/a/b.bin''"
    using p by simp
  have absent: "Map.empty (download_filepath ''/home/u'' (filename ?self) ''out'' False) = (None :: byte list option)"
    by simp
  have lay: "chunks_laid_out 0 (chunks ?self)" by simp
  have total: "file_size ?self = sum_list (map cb_original (chunks ?self))" by simp
  have served: "list_all (chunk_served ?H ?get) (chunks ?self)"
    by (simp add: chunk_served_def a1 a2)
  have first: "files (download_to ?H ?get ''/home/u'' Map.empty ?self ''out'' False None True)
                 = [''/home/u/out/a/b.bin'' \<mapsto> [1, 2, 3, 4, 5]]"
    using first_download_is_complete [where fs = Map.empty and cwd = "''/home/u''" and self = ?self
        and target = "''out''" and no_make_dirs = False and H = ?H and get = ?get
        and pbar = None and verify = True, OF absent lay total served]
    by (simp add: p0 served_data_def a1 a2)
  show ?thesis
    using second_run_fetches_nothing [where fs = Map.empty and cwd = "''/home/u''" and self = ?self
        and target = "''out''" and no_make_dirs = False and H = ?H and get = ?get
        and pbar = None and verify = True and pbar' = None, OF absent lay total served]
    unfolding first by (simp add: pbar_update_opt_def)
qed

subsection \<open>Key isolation\<close>

text \<open>
  C8. When a custom key file is supplied, \<open>save_cache\<close> leaves every key file as it was,
  the default store included; and whether or not one is supplied, the only file
  \<open>save_cache\<close> can change is the default store, so a custom file elsewhere is never
  written.
\<close>

theorem save_cache_frame:
  "(truthy_path (custom_depot_keys_file self) \<longrightarrow> files_after (save_cache fs self) = fs)
   \<and> (p \<noteq> default_keys_path \<longrightarrow> files_after (save_cache fs self) p = fs p)"
  by (simp add: save_cache_def Let_def split: sum.splits prod.splits)

theorem save_cache_frame_witness:
  "files_after
     (save_cache
        [default_keys_path \<mapsto> KeysJson [(1, [0xAA])], ''/tmp/w/depot_keys.json'' \<mapsto> KeysJson [(2, [0xBB])]]
        \<lparr>custom_depot_keys_file = Some ''/tmp/w/depot_keys.json'',
         depot_keys_field = Some [(2, [0xBB]), (3, [0xCC])]\<rparr>)
   = [default_keys_path \<mapsto> KeysJson [(1, [0xAA])], ''/tmp/w/depot_keys.json'' \<mapsto> KeysJson [(2, [0xBB])]]
   \<and> depot_keys_field (client_after
     (save_cache
        [default_keys_path \<mapsto> KeysJson [(1, [0xAA])], ''/tmp/w/depot_keys.json'' \<mapsto> KeysJson [(2, [0xBB])]]
        \<lparr>custom_depot_keys_file = Some ''/tmp/w/depot_keys.json'',
         depot_keys_field = Some [(2, [0xBB]), (3, [0xCC])]\<rparr>))
     = Some [(2, [0xBB]), (3, [0xCC])]"
proof -
  let ?fs = "[default_keys_path \<mapsto> KeysJson [(1, [0xAA])], ''/tmp/w/depot_keys.json'' \<mapsto> KeysJson [(2, [0xBB])]]"
  let ?self = "\<lparr>custom_depot_keys_file = Some ''/tmp/w/depot_keys.json'',
         depot_keys_field = Some [(2, [0xBB :: byte]), (3, [0xCC])]\<rparr>"
  have t: "truthy_path (custom_depot_keys_file ?self)"
    by (simp add: truthy_path_def)
  have "files_after (save_cache ?fs ?self) = ?fs"
    using save_cache_frame [of ?self ?fs "''x''"] t by blast
  moreover have "depot_keys_field (client_after (save_cache ?fs ?self)) = Some [(2, [0xBB]), (3, [0xCC])]"
    by (simp add: save_cache_def get_cached_depot_keys_def depot_keys_def dict_eq_def
        default_keys_path_def truthy_path_def dict_truthy_def dict_update_all_def Let_def)
  ultimately show ?thesis by simp
qed

text \<open>Without a custom file, newly learned keys are written to the default store.\<close>

lemma save_cache_writes_default_store:
  "files_after
     (save_cache [default_keys_path \<mapsto> KeysJson [(1, [0xAA])]]
        \<lparr>custom_depot_keys_file = None, depot_keys_field = Some [(1, [0xAA]), (3, [0xCC])]\<rparr>)
   = [default_keys_path \<mapsto> KeysJson [(1, [0xAA]), (3, [0xCC])]]"
  by (simp add: save_cache_def get_cached_depot_keys_def load_default_keys_def depot_keys_def
      dict_eq_def truthy_path_def dict_truthy_def dict_update_all_def Let_def)

subsection \<open>Cancellation\<close>

lemma file_loop_cancelled: "should_cancel st \<Longrightarrow> file_loop env st fs = st"
  by (cases fs) simp_all

lemma manifest_loop_cancelled: "should_cancel st \<Longrightarrow> manifest_loop env st ms = st"
  by (cases ms) simp_all

lemma others_run_keeps:
  "submitted (others_run ev st) = submitted st"
  "spawned_after_cancel (others_run ev st) = spawned_after_cancel st"
  "should_cancel st \<Longrightarrow> should_cancel (others_run ev st)"
  by (simp_all add: others_run_def check_cancellation_def cancel_download_def)

lemma file_loop_late: "spawned_after_cancel (file_loop env st fs) = spawned_after_cancel st"
proof (induction fs arbitrary: st)
  case Nil
  show ?case by simp
next
  case (Cons f fs)
  show ?case
    by (simp add: Cons.IH Let_def spawn_def others_run_keeps)
qed

lemma manifest_loop_late: "spawned_after_cancel (manifest_loop env st ms) = spawned_after_cancel st"
  by (induction ms arbitrary: st) (simp_all add: file_loop_late)

lemma tail_keeps_late:
  "spawned_after_cancel (finally_cleanup st) = spawned_after_cancel st"
  "spawned_after_cancel (tasks_join env st) = spawned_after_cancel st"
  "should_cancel (finally_cleanup st) = should_cancel st"
  by (simp_all add: finally_cleanup_def tasks_join_def others_run_keeps)

text \<open>
  C7. From a state in which \<open>should_cancel\<close> is set, neither submission loop calls
  \<open>tasks.spawn\<close> again, whatever files and manifests remain; in every run of the
  command, in every environment, no call of \<open>tasks.spawn\<close> is made with the flag set;
  and when the flag is set at the end of the command, the command returns 1.
\<close>

theorem cancellation_stops_submission:
  "(should_cancel st \<longrightarrow> file_loop env st fs = st \<and> manifest_loop env st ms = st)
   \<and> spawned_after_cancel (snd (cmd_depot_download env show_progress manifest_list)) = 0
   \<and> (should_cancel (snd (cmd_depot_download env show_progress manifest_list))
        \<longrightarrow> fst (cmd_depot_download env show_progress manifest_list) = Returned 1)"
proof -
  have a: "should_cancel st \<longrightarrow> file_loop env st fs = st \<and> manifest_loop env st ms = st"
    by (simp add: file_loop_cancelled manifest_loop_cancelled)
  have b: "spawned_after_cancel (snd (cmd_depot_download env show_progress manifest_list)) = 0"
    by (simp add: cmd_depot_download_def Let_def tail_keeps_late manifest_loop_late initial_sched_def)
  have c: "should_cancel (snd (cmd_depot_download env show_progress manifest_list))
        \<longrightarrow> fst (cmd_depot_download env show_progress manifest_list) = Returned 1"
    by (simp add: cmd_depot_download_def Let_def initial_sched_def)
  from a b c show ?thesis by blast
qed


theorem cancellation_stops_submission_witness:
  "fst (cmd_depot_download (cancel_during_spawn 2) True
          [[plain_file ''a'', plain_file ''b''], [plain_file ''c'']]) = Returned 1
   \<and> submitted (snd (cmd_depot_download (cancel_during_spawn 2) True
          [[plain_file ''a'', plain_file ''b''], [plain_file ''c'']]))
       = [plain_file ''a'', plain_file ''b'']
   \<and> spawned_after_cancel (snd (cmd_depot_download (cancel_during_spawn 2) True
          [[plain_file ''a'', plain_file ''b''], [plain_file ''c'']])) = 0"
proof -
  let ?r = "cmd_depot_download (cancel_during_spawn 2) True
          [[plain_file ''a'', plain_file ''b''], [plain_file ''c'']]"
  have ev: "should_cancel (snd ?r) \<and> submitted (snd ?r) = [plain_file ''a'', plain_file ''b'']"
    by (simp add: cmd_depot_download_def initial_sched_def plain_file_def cancel_during_spawn_def
        spawn_def others_run_def check_cancellation_def cancel_download_def finally_cleanup_def
        pbar_update_opt_def pbar_update_def pbar_cancel_def Let_def)
  from cancellation_stops_submission [of "snd ?r" "cancel_during_spawn 2" "[]" "[]" True
      "[[plain_file ''a'', plain_file ''b''], [plain_file ''c'']]"] ev
  show ?thesis by simp
qed

subsection \<open>The files counter\<close>

lemma spawn_counted:
  assumes "files_counted st" "\<not> should_cancel st" "is_file f"
  shows "files_counted
           (let st1 = spawn env f st
            in if bar_files st1 \<noteq> None \<and> \<not> should_cancel st1
               then st1\<lparr>bar_files := pbar_update_opt 1 (bar_files st1)\<rparr> else st1)"
  using assms
  by (cases "bar_files st")
     (auto simp add: files_counted_def spawn_def others_run_def check_cancellation_def
        cancel_download_def pbar_update_opt_def pbar_update_def Let_def)

lemma file_loop_counted: "files_counted st \<Longrightarrow> files_counted (file_loop env st fs)"
proof (induction fs arbitrary: st)
  case Nil
  then show ?case by simp
next
  case (Cons f fs)
  show ?case
  proof (cases "should_cancel st \<or> \<not> is_file f")
    case True
    then show ?thesis using Cons by auto
  next
    case False
    then have "files_counted
           (let st1 = spawn env f st
            in if bar_files st1 \<noteq> None \<and> \<not> should_cancel st1
               then st1\<lparr>bar_files := pbar_update_opt 1 (bar_files st1)\<rparr> else st1)"
      using spawn_counted [OF Cons.prems] by simp
    then show ?thesis
      using False Cons.IH by (simp add: Let_def)
  qed
qed

lemma manifest_loop_counted: "files_counted st \<Longrightarrow> files_counted (manifest_loop env st ms)"
  by (induction ms arbitrary: st) (simp_all add: file_loop_counted)

lemma spawn_submitted:
  "submitted
     (let st1 = spawn env f st
      in if bar_files st1 \<noteq> None \<and> \<not> should_cancel st1
         then st1\<lparr>bar_files := pbar_update_opt 1 (bar_files st1)\<rparr> else st1)
   = submitted st @ [f]"
  by (simp add: spawn_def others_run_def check_cancellation_def cancel_download_def Let_def)

lemma file_loop_submitted:
  "\<not> should_cancel (file_loop env st fs)
   \<Longrightarrow> submitted (file_loop env st fs) = submitted st @ filter is_file fs"
proof (induction fs arbitrary: st)
  case Nil
  show ?case by simp
next
  case (Cons f fs)
  have live: "\<not> should_cancel st"
    using Cons.prems by (auto split: if_splits)
  show ?case
  proof (cases "is_file f")
    case False
    then show ?thesis
      using live Cons.prems Cons.IH [of st] by simp
  next
    case True
    let ?st2 = "let st1 = spawn env f st
                in if bar_files st1 \<noteq> None \<and> \<not> should_cancel st1
                   then st1\<lparr>bar_files := pbar_update_opt 1 (bar_files st1)\<rparr> else st1"
    have step: "file_loop env st (f # fs) = file_loop env ?st2 fs"
      using live True by (simp add: Let_def)
    have "submitted (file_loop env ?st2 fs) = submitted ?st2 @ filter is_file fs"
      using Cons.prems unfolding step by (rule Cons.IH)
    then show ?thesis
      unfolding step spawn_submitted using True by simp
  qed
qed

lemma manifest_loop_submitted:
  "\<not> should_cancel (manifest_loop env st ms)
   \<Longrightarrow> submitted (manifest_loop env st ms) = submitted st @ filter is_file (concat ms)"
proof (induction ms arbitrary: st)
  case Nil
  show ?case by simp
next
  case (Cons m ms)
  have live: "\<not> should_cancel st"
    using Cons.prems by (auto split: if_splits)
  then have step: "manifest_loop env st (m # ms) = manifest_loop env (file_loop env st m) ms"
    by simp
  have rest: "submitted (manifest_loop env (file_loop env st m) ms)
                = submitted (file_loop env st m) @ filter is_file (concat ms)"
    using Cons.prems unfolding step by (rule Cons.IH)
  have "\<not> should_cancel (file_loop env st m)"
  proof
    assume "should_cancel (file_loop env st m)"
    then have "manifest_loop env (file_loop env st m) ms = file_loop env st m"
      by (cases ms) simp_all
    with \<open>should_cancel (file_loop env st m)\<close> Cons.prems show False
      unfolding step by simp
  qed
  then have "submitted (file_loop env st m) = submitted st @ filter is_file m"
    by (rule file_loop_submitted)
  with rest show ?case
    unfolding step by simp
qed

text \<open>
  C9 (as amended). When the command starts and after every iteration of the submission
  loops, unless cancellation was requested, the files counter equals the number of tasks
  submitted to the pool so far; every task submitted is for a file, none for a directory;
  and the tasks finished are among those submitted. When the submission loops end without
  cancellation, the tasks submitted are exactly the files of the manifests, in order,
  directories excluded.
\<close>

theorem files_counter_counts_submissions:
  "files_counted (initial_sched show_progress)
   \<and> (files_counted st \<longrightarrow> files_counted (file_loop env st fs) \<and> files_counted (manifest_loop env st ms))
   \<and> (\<not> should_cancel (manifest_loop env (initial_sched show_progress) ms)
        \<longrightarrow> submitted (manifest_loop env (initial_sched show_progress) ms)
              = filter is_file (concat ms))"
proof -
  have "files_counted (initial_sched show_progress)"
    by (simp add: files_counted_def initial_sched_def)
  moreover have "submitted (manifest_loop env (initial_sched show_progress) ms)
              = filter is_file (concat ms)"
    if "\<not> should_cancel (manifest_loop env (initial_sched show_progress) ms)"
    using manifest_loop_submitted [OF that] by (simp add: initial_sched_def)
  ultimately show ?thesis
    by (simp add: file_loop_counted manifest_loop_counted)
qed

theorem files_counter_counts_submissions_witness:
  "files_counted (manifest_loop quiet (initial_sched True)
     [[plain_file ''a'', plain_dir ''d'', plain_file ''b''], [plain_dir ''e'']])
   \<and> \<not> should_cancel (manifest_loop quiet (initial_sched True)
     [[plain_file ''a'', plain_dir ''d'', plain_file ''b''], [plain_dir ''e'']])
   \<and> submitted (manifest_loop quiet (initial_sched True)
     [[plain_file ''a'', plain_dir ''d'', plain_file ''b''], [plain_dir ''e'']])
       = [plain_file ''a'', plain_file ''b'']
   \<and> map_option pbar_n (bar_files (manifest_loop quiet (initial_sched True)
     [[plain_file ''a'', plain_dir ''d'', plain_file ''b''], [plain_dir ''e'']]))
       = Some 2"
proof -
  let ?ms = "[[plain_file ''a'', plain_dir ''d'', plain_file ''b''], [plain_dir ''e'']]"
  let ?end = "manifest_loop quiet (initial_sched True) ?ms"
  have live: "\<not> should_cancel ?end"
    by (simp add: initial_sched_def plain_file_def plain_dir_def quiet_def
        spawn_def others_run_def check_cancellation_def
        pbar_update_opt_def pbar_update_def Let_def)
  have n: "map_option pbar_n (bar_files ?end) = Some 2"
    by (simp add: initial_sched_def plain_file_def plain_dir_def quiet_def
        spawn_def others_run_def check_cancellation_def
        pbar_update_opt_def pbar_update_def Let_def)
  have files: "filter is_file (concat ?ms) = [plain_file ''a'', plain_file ''b'']"
    by (simp add: plain_file_def plain_dir_def)
  from files_counter_counts_submissions [of True "initial_sched True" quiet "[]" ?ms]
  have "files_counted ?end" and "\<not> should_cancel ?end \<longrightarrow> submitted ?end = filter is_file (concat ?ms)"
    by blast+
  with live n files show ?thesis
    by simp
qed

text \<open>
  After the first file is submitted the files counter is 1, while no task has finished:
  the one task is still running.
\<close>

theorem files_counter_ahead_counterexample:
  "map_option pbar_n (bar_files (file_loop quiet (initial_sched True) [plain_file ''a''])) = Some 1
   \<and> finished (file_loop quiet (initial_sched True) [plain_file ''a'']) = 0
   \<and> running (file_loop quiet (initial_sched True) [plain_file ''a'']) = 1"
  by (simp add: initial_sched_def plain_file_def quiet_def
        spawn_def others_run_def check_cancellation_def
        pbar_update_opt_def pbar_update_def Let_def)

subsection \<open>Nothing to download\<close>

text \<open>
  X4. When the manifests hold no file, only directories or nothing, the command neither
  submits a task nor returns a status: it ends with \<open>UnboundLocalError\<close>, raised by the
  \<open>finally\<close> block.
\<close>

theorem nothing_to_download:
  assumes "list_all (\<lambda>f. \<not> is_file f) (concat manifest_list)"
  shows "cmd_depot_download env show_progress manifest_list
           = (Raised UnboundLocalError, initial_sched False)"
proof -
  have "filter is_file (concat manifest_list) = []"
    using assms by (simp add: filter_empty_conv list_all_iff)
  then show ?thesis
    by (simp add: cmd_depot_download_def)
qed

theorem nothing_to_download_witness:
  "cmd_depot_download quiet True [[(plain_file ''dir'')\<lparr>is_file := False\<rparr>], []]
     = (Raised UnboundLocalError, initial_sched False)"
  using nothing_to_download [of "[[(plain_file ''dir'')\<lparr>is_file := False\<rparr>], []]" quiet True]
  by (simp add: plain_file_def)

end
